theory Spec2Isabelle
  imports Main "HOL-Library.Word" "HOL-Library.Sublist"
begin

section \<open>Machine data of recordio.h / recordio.cc\<close>

text \<open>
  The record file format of \<^verbatim>\<open>recordio.cc\<close> writes the object representation of an
  \<^verbatim>\<open>int\<close> and of a \<^verbatim>\<open>size_t\<close> straight into the file. The embedding fixes the data
  model of the platform the repository builds for (Linux, LP64, little-endian):
  \<^verbatim>\<open>char\<close> is a byte, \<^verbatim>\<open>int\<close> has 32 bits, \<^verbatim>\<open>size_t\<close> has 64 bits,
  \<^verbatim>\<open>std::streamsize\<close> is the signed 64-bit integer, and the least significant byte
  of an integer comes first in memory.
\<close>

type_synonym byte = "8 word"
type_synonym int32 = "32 word"
type_synonym size_t = "64 word"

text \<open>\<^verbatim>\<open>const int RecordWriter::kMagicNumber = 0x3ed7230a;\<close>\<close>

definition kMagicNumber :: int32 where
  "kMagicNumber = 0x3ed7230a"

text \<open>The little-endian object representation of an unsigned value in \<open>n\<close> bytes.\<close>

fun bytes_of_nat :: "nat \<Rightarrow> nat \<Rightarrow> byte list" where
  "bytes_of_nat 0 v = []"
| "bytes_of_nat (Suc n) v = of_nat (v mod 256) # bytes_of_nat n (v div 256)"

fun nat_of_bytes :: "byte list \<Rightarrow> nat" where
  "nat_of_bytes [] = 0"
| "nat_of_bytes (b # bs) = unat b + 256 * nat_of_bytes bs"

text \<open>\<^verbatim>\<open>sizeof(int)\<close> and \<^verbatim>\<open>sizeof(size_t)\<close>.\<close>

definition sizeof_int :: nat where
  "sizeof_int = 4"

definition sizeof_size_t :: nat where
  "sizeof_size_t = 8"

text \<open>\<^verbatim>\<open>reinterpret_cast<const char*>(&x)\<close>: the bytes of an \<^verbatim>\<open>int\<close> and of a
  \<^verbatim>\<open>size_t\<close>, and the value such bytes stand for.\<close>

definition int_bytes :: "int32 \<Rightarrow> byte list" where
  "int_bytes w = bytes_of_nat sizeof_int (unat w)"

definition size_bytes :: "size_t \<Rightarrow> byte list" where
  "size_bytes w = bytes_of_nat sizeof_size_t (unat w)"

definition int_of_bytes :: "byte list \<Rightarrow> int32" where
  "int_of_bytes bs = of_nat (nat_of_bytes bs)"

definition size_of_bytes :: "byte list \<Rightarrow> size_t" where
  "size_of_bytes bs = of_nat (nat_of_bytes bs)"

text \<open>Storing the bytes \<open>got\<close> at the start of a region that held \<open>old\<close>: the bytes
  beyond \<open>got\<close> keep their former value. This is what \<^verbatim>\<open>istream::read\<close> does to
  its destination when it extracts fewer characters than the destination holds.\<close>

definition overwrite :: "byte list \<Rightarrow> byte list \<Rightarrow> byte list" where
  "overwrite got old = got @ drop (length got) old"

text \<open>The conversion of a \<^verbatim>\<open>size_t\<close> argument to the \<^verbatim>\<open>std::streamsize\<close> parameter of
  \<^verbatim>\<open>read\<close> and \<^verbatim>\<open>write\<close>: the same 64 bits, read as a signed number.\<close>

definition streamsize_of :: "size_t \<Rightarrow> int" where
  "streamsize_of n = sint n"

section \<open>The standard streams\<close>

text \<open>
  \<^verbatim>\<open>std::ofstream\<close> and \<^verbatim>\<open>std::ifstream\<close> are library classes; the embedding follows
  the C++ standard's description of \<^verbatim>\<open>basic_ios\<close>, \<^verbatim>\<open>ostream::write\<close>,
  \<^verbatim>\<open>istream::read\<close> and \<^verbatim>\<open>close\<close>. The state bits are sticky: no operation used by
  \<^verbatim>\<open>recordio.cc\<close> clears them. \<open>is_open\<close> says whether a file is attached, and
  \<open>close_ok\<close> whether the operating system will close that file without an error.
  An \<^verbatim>\<open>ofstream\<close> writes through a stream buffer, so that characters a write has
  taken may reach the file only later, at the latest when the stream is closed.
\<close>

record ios =
  eofbit :: bool
  failbit :: bool
  badbit :: bool
  is_open :: bool
  close_ok :: bool

text \<open>\<^verbatim>\<open>fail()\<close> is \<^verbatim>\<open>failbit | badbit\<close>; \<^verbatim>\<open>good()\<close> is no bit set.\<close>

definition ios_fail :: "'a ios_scheme \<Rightarrow> bool" where
  "ios_fail f = (failbit f \<or> badbit f)"

definition ios_good :: "'a ios_scheme \<Rightarrow> bool" where
  "ios_good f = (\<not> eofbit f \<and> \<not> failbit f \<and> \<not> badbit f)"

text \<open>\<^verbatim>\<open>ifstream::close()\<close> calls \<^verbatim>\<open>rdbuf()->close()\<close>, which fails when no file is open
  or when the operating system reports an error, and sets \<^verbatim>\<open>failbit\<close> when that
  failed. It clears no bit.\<close>

definition closing_fails :: "'a ios_scheme \<Rightarrow> bool" where
  "closing_fails f = (\<not> (is_open f \<and> close_ok f))"

definition ios_close :: "'a ios_scheme \<Rightarrow> 'a ios_scheme" where
  "ios_close f =
     (if closing_fails f then f\<lparr>failbit := True, is_open := False\<rparr>
      else f\<lparr>is_open := False\<rparr>)"

text \<open>
  The output file with its stream buffer, after \<^verbatim>\<open>basic_filebuf\<close> of the GNU C++
  library, which the repository builds with. \<open>device\<close> is the content of the file,
  \<open>room\<close> how many more bytes the device will take (\<open>None\<close>: no limit; \<open>Some r\<close>: the
  device is full after \<open>r\<close> more bytes), \<open>put_area\<close> the characters the buffer holds
  and has not passed to the device yet, and \<open>buf_size\<close> the size of the buffer
  (\<^verbatim>\<open>BUFSIZ\<close> unless the program sets another one; 0 or 1 for an unbuffered stream).
\<close>

record ofstream = ios +
  device :: "byte list"
  room :: "nat option"
  put_area :: "byte list"
  buf_size :: nat

definition BUFSIZ :: nat where
  "BUFSIZ = 8192"

text \<open>The characters the stream has taken from the program: those that reached the
  file, then those that wait in the put area.\<close>

definition written :: "ofstream \<Rightarrow> byte list" where
  "written f = device f @ put_area f"

text \<open>The input file: the bytes of the source that have not been extracted yet.\<close>

record ifstream = ios +
  pending :: "byte list"

text \<open>How many of \<open>k\<close> bytes the device takes.\<close>

definition accepted :: "ofstream \<Rightarrow> nat \<Rightarrow> nat" where
  "accepted f k = (case room f of None \<Rightarrow> k | Some r \<Rightarrow> min r k)"

text \<open>
  \<^verbatim>\<open>basic_filebuf::xsputn(s, n)\<close>, returning the number of characters put and the
  stream. \<open>s\<close> is the memory readable at the pointer: the standard requires it to hold
  \<open>n\<close> characters, and the model puts no character that is not there. Nothing is put
  when no file is open. With \<open>bufavail\<close> the free part of the buffer (one position is
  kept back), a request shorter than \<open>min 1024 bufavail\<close> is copied to the put area
  and does not reach the device. Any other request writes the put area and the
  request to the device at once: when the device takes all of it the put area is
  empty afterwards; otherwise the put area is left as it was, and the number returned
  is what the device took beyond the put area.
\<close>

definition sputn :: "byte list \<Rightarrow> nat \<Rightarrow> ofstream \<Rightarrow> nat \<times> ofstream" where
  "sputn s n f =
     (if \<not> is_open f then (0, f)
      else
        let req = take n s;
            buffill = length (put_area f);
            bufavail = buf_size f - 1 - buffill;
            limit = min 1024 bufavail
        in if limit \<le> n then
             let k = accepted f (buffill + length req);
                 f' = f\<lparr>device := device f @ take k (put_area f @ req),
                        room := map_option (\<lambda>r. r - k) (room f)\<rparr>
             in if k = buffill + length req then (length req, f'\<lparr>put_area := []\<rparr>)
                else (k - buffill, f')
           else (length req, f\<lparr>put_area := put_area f @ req\<rparr>))"

text \<open>
  \<^verbatim>\<open>ostream::write(s, n)\<close>. The sentry fails on a stream that is not \<^verbatim>\<open>good()\<close>:
  \<^verbatim>\<open>failbit\<close> is set and nothing is written. Otherwise the characters go to the
  stream buffer, and \<^verbatim>\<open>badbit\<close> is set when the number of characters put differs
  from \<open>n\<close>; for a negative \<open>n\<close> nothing is put.
\<close>

definition ostream_write :: "byte list \<Rightarrow> int \<Rightarrow> ofstream \<Rightarrow> ofstream" where
  "ostream_write s n f =
     (if \<not> ios_good f then f\<lparr>failbit := True\<rparr>
      else if n < 0 then f\<lparr>badbit := True\<rparr>
      else
        let (put, f') = sputn s (nat n) f
        in if int put \<noteq> n then f'\<lparr>badbit := True\<rparr> else f')"

text \<open>A write reports a failure when it sets a failure bit: \<^verbatim>\<open>failbit\<close> by the sentry,
  or \<^verbatim>\<open>badbit\<close> because the stream buffer did not put all \<open>n\<close> characters.\<close>

definition write_reports_failure :: "byte list \<Rightarrow> int \<Rightarrow> ofstream \<Rightarrow> bool" where
  "write_reports_failure s n f =
     (if ios_good f then n < 0 \<or> int (fst (sputn s (nat n) f)) \<noteq> n else True)"

text \<open>
  \<^verbatim>\<open>ofstream::close()\<close> calls \<^verbatim>\<open>basic_filebuf::close()\<close> and sets \<^verbatim>\<open>failbit\<close> when
  that failed. It fails at once when no file is open. Otherwise it writes the put
  area to the device and closes the file, and fails when the device did not take all
  of the put area or the operating system reports an error.
\<close>

definition flush_fails :: "ofstream \<Rightarrow> bool" where
  "flush_fails f = (accepted f (length (put_area f)) < length (put_area f))"

definition ofstream_closing_fails :: "ofstream \<Rightarrow> bool" where
  "ofstream_closing_fails f = (if is_open f then flush_fails f \<or> \<not> close_ok f else True)"

definition ofstream_close :: "ofstream \<Rightarrow> ofstream" where
  "ofstream_close f =
     (if \<not> is_open f then f\<lparr>failbit := True\<rparr>
      else
        let k = accepted f (length (put_area f));
            f' = f\<lparr>is_open := False,
                   device := device f @ take k (put_area f),
                   room := map_option (\<lambda>r. r - k) (room f),
                   put_area := []\<rparr>
        in if ofstream_closing_fails f then f'\<lparr>failbit := True\<rparr> else f')"

text \<open>The bytes the source can still deliver.\<close>

definition available :: "ifstream \<Rightarrow> byte list" where
  "available f = (if is_open f then pending f else [])"

text \<open>
  \<^verbatim>\<open>istream::read(s, n)\<close>, returning the characters extracted (they are stored at
  \<open>s\<close> by the caller of this function) and the stream. The sentry fails on a stream
  that is not \<^verbatim>\<open>good()\<close>: \<^verbatim>\<open>failbit\<close> is set and nothing is extracted. Otherwise up
  to \<open>n\<close> characters are extracted, and \<^verbatim>\<open>eofbit | failbit\<close> is set when the number
  extracted differs from \<open>n\<close>.
\<close>

definition istream_read :: "int \<Rightarrow> ifstream \<Rightarrow> byte list \<times> ifstream" where
  "istream_read n f =
     (if \<not> ios_good f then ([], f\<lparr>failbit := True\<rparr>)
      else
        let got = take (nat n) (available f);
            f' = f\<lparr>pending := drop (length got) (pending f)\<rparr>
        in if int (length got) \<noteq> n then (got, f'\<lparr>eofbit := True, failbit := True\<rparr>)
           else (got, f'))"

text \<open>A file just opened for writing on a device with room \<open>r\<close>, with the buffer the
  library gives it (the repository sets none), and a file just opened for reading whose
  content is \<open>bs\<close>.\<close>

definition fresh_ofstream :: "nat option \<Rightarrow> ofstream" where
  "fresh_ofstream r =
     \<lparr>eofbit = False, failbit = False, badbit = False, is_open = True, close_ok = True,
      device = [], room = r, put_area = [], buf_size = BUFSIZ\<rparr>"

definition open_ifstream :: "byte list \<Rightarrow> ifstream" where
  "open_ifstream bs =
     \<lparr>eofbit = False, failbit = False, badbit = False, is_open = True, close_ok = True,
      pending = bs\<rparr>"

section \<open>The free store\<close>

text \<open>
  \<^verbatim>\<open>new char[n]\<close> and \<^verbatim>\<open>delete[]\<close>. The heap is the list of live arrays with their
  addresses. \<^verbatim>\<open>new\<close> throws \<^verbatim>\<open>std::bad_alloc\<close> when the array is larger than the
  allocator can supply (\<open>alloc_limit\<close>) and in any case when it is larger than
  \<^verbatim>\<open>PTRDIFF_MAX\<close>, the size no object can exceed. A pointer is \<open>None\<close> for
  \<^verbatim>\<open>nullptr\<close> and \<open>Some a\<close> for the array at address \<open>a\<close>.
\<close>

datatype exn = bad_alloc

record heap =
  blocks :: "(nat \<times> byte list) list"
  next_addr :: nat
  alloc_limit :: nat

definition PTRDIFF_MAX :: nat where
  "PTRDIFF_MAX = 2 ^ 63 - 1"

text \<open>The content of a new array is indeterminate; the model fills it with zeros.
  \<^verbatim>\<open>ReadRecord\<close> either overwrites all of it or deletes it.\<close>

definition new_char_array :: "nat \<Rightarrow> heap \<Rightarrow> exn + (nat \<times> heap)" where
  "new_char_array n h =
     (if n \<le> alloc_limit h \<and> n \<le> PTRDIFF_MAX
      then Inr (next_addr h,
                h\<lparr>blocks := (next_addr h, replicate n 0) # blocks h,
                  next_addr := Suc (next_addr h)\<rparr>)
      else Inl bad_alloc)"

fun store_block :: "nat \<Rightarrow> byte list \<Rightarrow> (nat \<times> byte list) list \<Rightarrow> (nat \<times> byte list) list" where
  "store_block a got [] = []"
| "store_block a got ((b, old) # rest) =
     (if a = b then (b, overwrite got old) # rest else (b, old) # store_block a got rest)"

fun delete_block :: "nat \<Rightarrow> (nat \<times> byte list) list \<Rightarrow> (nat \<times> byte list) list" where
  "delete_block a [] = []"
| "delete_block a ((b, old) # rest) =
     (if a = b then rest else (b, old) # delete_block a rest)"

definition heap_store :: "nat \<Rightarrow> byte list \<Rightarrow> heap \<Rightarrow> heap" where
  "heap_store a got h = h\<lparr>blocks := store_block a got (blocks h)\<rparr>"

definition delete_array :: "nat \<Rightarrow> heap \<Rightarrow> heap" where
  "delete_array a h = h\<lparr>blocks := delete_block a (blocks h)\<rparr>"

text \<open>The bytes at a pointer; nothing can be read at \<^verbatim>\<open>nullptr\<close> or at a dead array.\<close>

definition heap_load :: "nat option \<Rightarrow> heap \<Rightarrow> byte list" where
  "heap_load p h =
     (case p of None \<Rightarrow> []
      | Some a \<Rightarrow> (case map_of (blocks h) a of None \<Rightarrow> [] | Some bs \<Rightarrow> bs))"

definition empty_heap :: "nat \<Rightarrow> heap" where
  "empty_heap limit = \<lparr>blocks = [], next_addr = 0, alloc_limit = limit\<rparr>"

section \<open>RecordWriter\<close>

text \<open>
  \<^verbatim>\<open>bool RecordWriter::WriteRecord(const char* buffer, size_t len)\<close> (recordio.cc,
  lines 37 to 43): three writes on \<^verbatim>\<open>file_\<close>, then \<^verbatim>\<open>!file_->fail()\<close>. \<open>buffer\<close> is
  the memory readable at the pointer.
\<close>

definition WriteRecord :: "byte list \<Rightarrow> size_t \<Rightarrow> ofstream \<Rightarrow> bool \<times> ofstream" where
  "WriteRecord buffer len file =
     (let f1 = ostream_write (int_bytes kMagicNumber) (int sizeof_int) file;
          f2 = ostream_write (size_bytes len) (int sizeof_size_t) f1;
          f3 = ostream_write buffer (streamsize_of len) f2
      in (\<not> ios_fail f3, f3))"

text \<open>\<^verbatim>\<open>bool RecordWriter::WriteRecord(const std::string& data)\<close> (lines 33 to 35).\<close>

definition WriteRecord_string :: "byte list \<Rightarrow> ofstream \<Rightarrow> bool \<times> ofstream" where
  "WriteRecord_string data file = WriteRecord data (of_nat (length data)) file"

text \<open>\<^verbatim>\<open>template <typename T> bool RecordWriter::Write(const T& t)\<close> (recordio.h, lines
  96 to 99). The value \<open>t\<close> is its object representation and \<open>sizeof_T\<close> is
  \<^verbatim>\<open>sizeof(T)\<close>.\<close>

definition Write :: "size_t \<Rightarrow> byte list \<Rightarrow> ofstream \<Rightarrow> bool \<times> ofstream" where
  "Write sizeof_T t file = WriteRecord t sizeof_T file"

text \<open>\<^verbatim>\<open>bool RecordWriter::Close()\<close> (lines 46 to 49): \<^verbatim>\<open>file_->close(); return file_->fail();\<close>\<close>

definition RecordWriter_Close :: "ofstream \<Rightarrow> bool \<times> ofstream" where
  "RecordWriter_Close file = (let f1 = ofstream_close file in (ios_fail f1, f1))"

section \<open>RecordReader\<close>

text \<open>
  \<^verbatim>\<open>bool RecordReader::ReadRecord(const char** buffer, size_t* len)\<close> (lines 80 to
  100). \<open>len0\<close> is the value of \<^verbatim>\<open>*len\<close> at the call. The result is the exception
  thrown by \<^verbatim>\<open>new\<close>, or the return value with \<^verbatim>\<open>*buffer\<close>, \<^verbatim>\<open>*len\<close>, the stream and
  the heap after the call.
\<close>

definition ReadRecord ::
  "size_t \<Rightarrow> ifstream \<Rightarrow> heap \<Rightarrow> exn + (bool \<times> nat option \<times> size_t \<times> ifstream \<times> heap)" where
  "ReadRecord len0 file h =
     (let (got1, f1) = istream_read (int sizeof_int) file;
          magic_number = int_of_bytes (overwrite got1 (int_bytes 0))
      in if ios_fail f1 \<or> magic_number \<noteq> kMagicNumber then Inr (False, None, len0, f1, h)
         else
           let (got2, f2) = istream_read (int sizeof_size_t) f1;
               len = size_of_bytes (overwrite got2 (size_bytes len0))
           in if ios_fail f2 then Inr (False, None, len, f2, h)
              else
                (case new_char_array (unat len) h of
                   Inl e \<Rightarrow> Inl e
                 | Inr (data, h1) \<Rightarrow>
                     let (got3, f3) = istream_read (streamsize_of len) f2;
                         h2 = heap_store data got3 h1
                     in if ios_fail f3 then Inr (False, None, len, f3, delete_array data h2)
                        else Inr (True, Some data, len, f3, h2)))"

text \<open>
  \<^verbatim>\<open>bool RecordReader::ReadRecord(std::string* data)\<close> (lines 69 to 78): the raw read
  with \<^verbatim>\<open>size = 0\<close>, then \<^verbatim>\<open>data->assign(buffer, size); delete[] buffer;\<close>. The
  result carries the caller's string after the call. The string's own storage is taken
  to be available: it is as large as the array that has just been allocated.
\<close>

definition ReadRecord_string ::
  "byte list \<Rightarrow> ifstream \<Rightarrow> heap \<Rightarrow> exn + (bool \<times> byte list \<times> ifstream \<times> heap)" where
  "ReadRecord_string data file h =
     (case ReadRecord 0 file h of
        Inl e \<Rightarrow> Inl e
      | Inr (ok, buffer, sz, f1, h1) \<Rightarrow>
          if \<not> ok then Inr (False, data, f1, h1)
          else Inr (True, take (unat sz) (heap_load buffer h1), f1,
                    (case buffer of None \<Rightarrow> h1 | Some a \<Rightarrow> delete_array a h1)))"

text \<open>
  \<^verbatim>\<open>bool RecordReader::ReadRecordSized(char* buffer, size_t len)\<close> (lines 107 to 121).
  \<open>buffer\<close> is the content of the caller's storage; the result carries it after the
  call. \<^verbatim>\<open>read_len\<close> is not initialised: it is compared only when its read did not
  fail, and then all its bytes come from the stream.
\<close>

definition ReadRecordSized :: "byte list \<Rightarrow> size_t \<Rightarrow> ifstream \<Rightarrow> bool \<times> byte list \<times> ifstream" where
  "ReadRecordSized buffer len file =
     (let (got1, f1) = istream_read (int sizeof_int) file;
          magic_number = int_of_bytes (overwrite got1 (int_bytes 0))
      in if ios_fail f1 \<or> magic_number \<noteq> kMagicNumber then (False, buffer, f1)
         else
           let (got2, f2) = istream_read (int sizeof_size_t) f1;
               read_len = size_of_bytes got2
           in if ios_fail f2 \<or> read_len \<noteq> len then (False, buffer, f2)
              else
                let (got3, f3) = istream_read (streamsize_of len) f2
                in (\<not> ios_fail f3, overwrite got3 buffer, f3))"

text \<open>\<^verbatim>\<open>template <typename T> bool RecordReader::Read(T* t)\<close> (recordio.h, lines 101 to
  106). The \<^verbatim>\<open>static_assert\<close> on \<^verbatim>\<open>is_pod\<close> is a condition on the type: a value of a
  plain-data type is its object representation, \<open>sizeof_T\<close> bytes.\<close>

definition Read :: "size_t \<Rightarrow> byte list \<Rightarrow> ifstream \<Rightarrow> bool \<times> byte list \<times> ifstream" where
  "Read sizeof_T t file = ReadRecordSized t sizeof_T file"

text \<open>\<^verbatim>\<open>bool RecordReader::Close()\<close> (lines 102 to 105).\<close>

definition RecordReader_Close :: "ifstream \<Rightarrow> bool \<times> ifstream" where
  "RecordReader_Close file = (let f1 = ios_close file in (ios_fail f1, f1))"

section \<open>A producer and a consumer\<close>

text \<open>The frame of a payload: the magic value, the length, the payload.\<close>

definition frame :: "byte list \<Rightarrow> byte list" where
  "frame p = int_bytes kMagicNumber @ size_bytes (of_nat (length p)) @ p"

text \<open>A producer that calls \<^verbatim>\<open>WriteRecord\<close> for each payload in order, through the
  string overload (that is, \<^verbatim>\<open>WriteRecord(p.data(), p.size())\<close>), and keeps the return
  values.\<close>

fun write_records :: "byte list list \<Rightarrow> ofstream \<Rightarrow> bool list \<times> ofstream" where
  "write_records [] f = ([], f)"
| "write_records (p # ps) f =
     (let (ok, f1) = WriteRecord_string p f;
          (oks, f2) = write_records ps f1
      in (ok # oks, f2))"

text \<open>A consumer that calls \<^verbatim>\<open>ReadRecord\<close> \<open>k\<close> times, each time into an empty string,
  and keeps what each call delivered: \<open>Some\<close> payload, or \<open>None\<close> for "no frame".\<close>

fun read_records :: "nat \<Rightarrow> ifstream \<Rightarrow> heap \<Rightarrow> exn + (byte list option list \<times> ifstream \<times> heap)" where
  "read_records 0 f h = Inr ([], f, h)"
| "read_records (Suc k) f h =
     (case ReadRecord_string [] f h of
        Inl e \<Rightarrow> Inl e
      | Inr (ok, data, f1, h1) \<Rightarrow>
          (case read_records k f1 h1 of
             Inl e \<Rightarrow> Inl e
           | Inr (rs, f2, h2) \<Rightarrow> Inr ((if ok then Some data else None) # rs, f2, h2)))"

text \<open>
  Two quantities the facts about the stream buffer are stated with. The put area is
  ready when it is empty or leaves room for one more character; every write of at least
  one character that succeeds leaves it so. The capacity is the length the file has
  when the device is full; a write changes it only when it fails.
\<close>

definition buffer_ready :: "ofstream \<Rightarrow> bool" where
  "buffer_ready f = (put_area f = [] \<or> Suc (length (put_area f)) < buf_size f)"

definition capacity :: "ofstream \<Rightarrow> nat option" where
  "capacity f = map_option (\<lambda>r. length (device f) + r) (room f)"

text \<open>The input stream after a read ran into the end of an empty source:
  \<^verbatim>\<open>eofbit\<close> and \<^verbatim>\<open>failbit\<close> are set.\<close>

definition exhausted :: ifstream where
  "exhausted = (open_ifstream [])\<lparr>eofbit := True, failbit := True\<rparr>"

section \<open>Object representations\<close>

lemma unat_byte_lt: "unat (b :: byte) < 256"
proof -
  have "unat b < 2 ^ LENGTH(8)" by (rule unsigned_less)
  then show ?thesis by simp
qed

lemma unat_int32_lt: "unat (w :: int32) < 256 ^ 4"
proof -
  have "unat w < 2 ^ LENGTH(32)" by (rule unsigned_less)
  then show ?thesis by simp
qed

lemma unat_size_t_lt: "unat (w :: size_t) < 256 ^ 8"
proof -
  have "unat w < 2 ^ LENGTH(64)" by (rule unsigned_less)
  then show ?thesis by simp
qed

lemma unat_size_t_lt64: "unat (w :: size_t) < 2 ^ 64"
proof -
  have "unat w < 2 ^ LENGTH(64)" by (rule unsigned_less)
  then show ?thesis by simp
qed

lemma length_bytes_of_nat [simp]: "length (bytes_of_nat n v) = n"
  by (induction n arbitrary: v) simp_all

lemma nat_of_bytes_of_nat: "nat_of_bytes (bytes_of_nat n v) = v mod 256 ^ n"
proof (induction n arbitrary: v)
  case 0
  show ?case by simp
next
  case (Suc n)
  have b: "unat (of_nat (v mod 256) :: byte) = v mod 256"
    by (simp add: unat_of_nat)
  have "nat_of_bytes (bytes_of_nat (Suc n) v) = v mod 256 + 256 * ((v div 256) mod 256 ^ n)"
    using Suc.IH [of "v div 256"] b by simp
  also have "\<dots> = v mod 256 ^ Suc n"
    by (simp add: mod_mult2_eq)
  finally show ?case .
qed

lemma nat_of_bytes_bound: "nat_of_bytes bs < 256 ^ length bs"
proof (induction bs)
  case Nil
  show ?case by simp
next
  case (Cons b bs)
  have "unat b < 256" by (rule unat_byte_lt)
  moreover have "nat_of_bytes bs + 1 \<le> 256 ^ length bs" using Cons.IH by simp
  then have "256 * (nat_of_bytes bs + 1) \<le> 256 * 256 ^ length bs" by simp
  ultimately show ?case by simp
qed

lemma bytes_of_nat_of_bytes: "bytes_of_nat (length bs) (nat_of_bytes bs) = bs"
proof (induction bs)
  case Nil
  show ?case by simp
next
  case (Cons b bs)
  have lt: "unat b < 256" by (rule unat_byte_lt)
  have m: "unat b mod 256 = unat b" using lt by simp
  have d: "(unat b + 256 * nat_of_bytes bs) div 256 = nat_of_bytes bs" using lt by simp
  show ?case using Cons.IH by (simp add: m d)
qed

lemma int_of_bytes_int_bytes [simp]: "int_of_bytes (int_bytes w) = w"
proof -
  have "unat w < 256 ^ 4" by (rule unat_int32_lt)
  then show ?thesis
    by (simp add: int_of_bytes_def int_bytes_def sizeof_int_def nat_of_bytes_of_nat)
qed

lemma size_of_bytes_size_bytes [simp]: "size_of_bytes (size_bytes w) = w"
proof -
  have "unat w < 256 ^ 8" by (rule unat_size_t_lt)
  then show ?thesis
    by (simp add: size_of_bytes_def size_bytes_def sizeof_size_t_def nat_of_bytes_of_nat)
qed

lemma length_int_bytes [simp]: "length (int_bytes w) = 4"
  by (simp add: int_bytes_def sizeof_int_def)

lemma length_size_bytes [simp]: "length (size_bytes w) = 8"
  by (simp add: size_bytes_def sizeof_size_t_def)

lemma int_bytes_int_of_bytes: 
  assumes "length bs = 4" shows "int_bytes (int_of_bytes bs) = bs"
proof -
  have "nat_of_bytes bs < 2 ^ 32" using nat_of_bytes_bound [of bs] assms by simp
  then have "unat (of_nat (nat_of_bytes bs) :: int32) = nat_of_bytes bs"
    by (simp add: unat_of_nat)
  then show ?thesis
    using bytes_of_nat_of_bytes [of bs] assms
    by (simp add: int_bytes_def int_of_bytes_def sizeof_int_def)
qed

lemma four_Suc: "(4::nat) = Suc (Suc (Suc (Suc 0)))"
  by simp

lemma eight_Suc: "(8::nat) = Suc (Suc (Suc (Suc (Suc (Suc (Suc (Suc 0)))))))"
  by simp

lemma int_bytes_unfold:
  "int_bytes w = (let v = unat w in
     [of_nat (v mod 256), of_nat (v div 256 mod 256), of_nat (v div 256 div 256 mod 256),
      of_nat (v div 256 div 256 div 256 mod 256)])"
  unfolding int_bytes_def sizeof_int_def four_Suc Let_def
  by (simp only: bytes_of_nat.simps)

lemma size_bytes_unfold:
  "size_bytes w = (let v = unat w in
     [of_nat (v mod 256), of_nat (v div 256 mod 256), of_nat (v div 256 div 256 mod 256),
      of_nat (v div 256 div 256 div 256 mod 256),
      of_nat (v div 256 div 256 div 256 div 256 mod 256),
      of_nat (v div 256 div 256 div 256 div 256 div 256 mod 256),
      of_nat (v div 256 div 256 div 256 div 256 div 256 div 256 mod 256),
      of_nat (v div 256 div 256 div 256 div 256 div 256 div 256 div 256 mod 256)])"
  unfolding size_bytes_def sizeof_size_t_def eight_Suc Let_def
  by (simp only: bytes_of_nat.simps)

lemma magic_bytes: "int_bytes kMagicNumber = [0x0a, 0x23, 0xd7, 0x3e]"
  by (simp add: int_bytes_unfold kMagicNumber_def)

lemma unat_less_uint: "(unat w < m) = (uint w < int m)"
  by (metis of_nat_less_iff uint_nat)

lemma uint_size_t_lt64: "uint (w :: size_t) < 2 ^ 64"
  using uint_lt2p [of w] by simp

lemma sint_size_t: "sint (w :: size_t) = (if uint w < 2 ^ 63 then uint w else uint w - 2 ^ 64)"
proof -
  have s: "sint w = take_bit 64 (uint w + 2 ^ 63) - 2 ^ 63"
    by (simp add: sint_uint signed_take_bit_eq_take_bit_shift)
  show ?thesis
  proof (cases "uint w < 2 ^ 63")
    case True
    then have "take_bit 64 (uint w + 2 ^ 63) = uint w + 2 ^ 63"
      by (intro take_bit_int_eq_self) simp_all
    then show ?thesis using s True by simp
  next
    case False
    have "take_bit 64 (uint w + 2 ^ 63) = (uint w + 2 ^ 63) mod 2 ^ 64"
      by (simp add: take_bit_eq_mod)
    also have "\<dots> = uint w + 2 ^ 63 - 2 ^ 64"
      using False uint_size_t_lt64 [of w] by (intro int_mod_pos_eq [where q = 1]) simp_all
    finally have t: "take_bit 64 (uint w + 2 ^ 63) = uint w + 2 ^ 63 - 2 ^ 64" .
    show ?thesis using s t False by simp
  qed
qed

lemma streamsize_of_small:
  assumes "unat n \<le> PTRDIFF_MAX"
  shows "streamsize_of n = int (unat n)"
proof -
  have "unat n < 2 ^ 63" using assms by (simp add: PTRDIFF_MAX_def)
  then have "uint n < 2 ^ 63" by (simp add: unat_less_uint)
  then show ?thesis by (simp add: streamsize_of_def sint_size_t)
qed

lemma streamsize_of_nonneg:
  assumes "0 \<le> streamsize_of n"
  shows "nat (streamsize_of n) = unat n" and "unat n \<le> PTRDIFF_MAX"
proof -
  have lt: "uint n < 2 ^ 63"
    using assms uint_size_t_lt64 [of n]
    by (simp add: streamsize_of_def sint_size_t split: if_splits)
  then show "nat (streamsize_of n) = unat n"
    by (simp add: streamsize_of_def sint_size_t)
  have "unat n < 2 ^ 63" using lt by (simp add: unat_less_uint)
  then show "unat n \<le> PTRDIFF_MAX" by (simp add: PTRDIFF_MAX_def)
qed

lemma unat_of_nat_length: "n \<le> PTRDIFF_MAX \<Longrightarrow> unat (of_nat n :: size_t) = n"
  by (simp add: unat_of_nat PTRDIFF_MAX_def)

section \<open>Facts about the stream buffer and the output stream\<close>

lemma accepted_le: "accepted f k \<le> k"
  by (simp add: accepted_def split: option.splits)

lemma good_not_fail: "ios_good f \<Longrightarrow> \<not> ios_fail f"
  by (simp add: ios_good_def ios_fail_def)

lemma take_min_length: "take (min (length s) n) s = take n s"
  by (simp add: min_def)

lemma sputn_frame:
  "eofbit (snd (sputn s n f)) = eofbit f"
  "failbit (snd (sputn s n f)) = failbit f"
  "badbit (snd (sputn s n f)) = badbit f"
  "is_open (snd (sputn s n f)) = is_open f"
  "close_ok (snd (sputn s n f)) = close_ok f"
  "buf_size (snd (sputn s n f)) = buf_size f"
  by (simp_all add: sputn_def Let_def)

lemma prefix_device_sputn: "prefix (device f) (device (snd (sputn s n f)))"
  by (simp add: sputn_def Let_def)

lemma sputn_success:
  assumes put: "fst (sputn s n f) = n" and pre: "0 < n \<or> buffer_ready f"
  shows "n \<le> length s"
    and "written (snd (sputn s n f)) = written f @ take n s"
    and "buffer_ready (snd (sputn s n f))"
    and "capacity (snd (sputn s n f)) = capacity f"
    and "0 < n \<longrightarrow> is_open f"
proof -
  show o: "0 < n \<longrightarrow> is_open f"
    using put by (cases "is_open f") (auto simp: sputn_def)
  have all: "n \<le> length s \<and> written (snd (sputn s n f)) = written f @ take n s
        \<and> buffer_ready (snd (sputn s n f)) \<and> capacity (snd (sputn s n f)) = capacity f"
  proof (cases "is_open f")
    case False
    then have "n = 0" using o by auto
    then show ?thesis
      using False pre by (simp add: sputn_def)
  next
    case True
    define req where "req = take n s"
    define buffill where "buffill = length (put_area f)"
    define limit where "limit = min 1024 (buf_size f - 1 - buffill)"
    define k where "k = accepted f (buffill + length req)"
    have lreq: "length req \<le> n" by (simp add: req_def)
    have kle: "k \<le> buffill + length req" unfolding k_def by (rule accepted_le)
    show ?thesis
    proof (cases "limit \<le> n")
      case False
      then have sp: "sputn s n f = (length req, f\<lparr>put_area := put_area f @ req\<rparr>)"
        using True by (simp add: sputn_def Let_def req_def buffill_def limit_def)
      with put have l: "length req = n" by simp
      have "Suc (buffill + n) < buf_size f" using False by (simp add: limit_def)
      then show ?thesis
        using l sp
        by (simp add: req_def written_def buffer_ready_def capacity_def buffill_def)
    next
      case dir: True
      show ?thesis
      proof (cases "k = buffill + length req")
        case full: True
        then have sp: "sputn s n f =
            (length req, f\<lparr>device := device f @ put_area f @ req,
                           room := map_option (\<lambda>r. r - k) (room f), put_area := []\<rparr>)"
          using True dir unfolding limit_def k_def buffill_def req_def
          by (simp add: sputn_def Let_def take_min_length)
        with put have l: "length req = n" by simp
        have cap: "map_option (\<lambda>r. length (device f) + length (put_area f) + length req + (r - k)) (room f)
               = map_option (\<lambda>r. length (device f) + r) (room f)"
          using full
          by (cases "room f") (auto simp: k_def accepted_def buffill_def min_def split: if_splits)
        show ?thesis
          using l sp cap
          by (simp add: req_def written_def buffer_ready_def capacity_def option.map_comp
              comp_def add.assoc)
      next
        case part: False
        then have sp: "fst (sputn s n f) = k - buffill"
          using True dir unfolding limit_def k_def buffill_def req_def
          by (simp add: sputn_def Let_def)
        have "k - buffill < length req \<or> (k < buffill \<and> length req = 0)"
          using part kle by linarith
        then have n0: "n = 0" and kb: "k < buffill" using put sp lreq by auto
        from n0 pre have "buffer_ready f" by simp
        moreover have "put_area f \<noteq> []" using kb by (auto simp: buffill_def)
        ultimately have "Suc buffill < buf_size f" by (simp add: buffer_ready_def buffill_def)
        then have "0 < limit" by (simp add: limit_def)
        with dir n0 show ?thesis by simp
      qed
    qed
  qed
then show "n \<le> length s" and "written (snd (sputn s n f)) = written f @ take n s"
    and "buffer_ready (snd (sputn s n f))" and "capacity (snd (sputn s n f)) = capacity f"
    by simp_all
qed

lemma sputn_short:
  assumes o: "is_open f" and valid: "n \<le> length s" and put: "fst (sputn s n f) \<noteq> n"
  shows "\<exists>c. capacity f = Some c \<and> c < length (written f @ take n s)
           \<and> device (snd (sputn s n f)) = take c (written f @ take n s)"
proof -
  define req where "req = take n s"
  define buffill where "buffill = length (put_area f)"
  define limit where "limit = min 1024 (buf_size f - 1 - buffill)"
  define k where "k = accepted f (buffill + length req)"
  have lreq: "length req = n" using valid by (simp add: req_def)
  have dir: "limit \<le> n"
  proof (rule ccontr)
    assume "\<not> limit \<le> n"
    then have "sputn s n f = (length req, f\<lparr>put_area := put_area f @ req\<rparr>)"
      using o by (simp add: sputn_def Let_def req_def buffill_def limit_def)
    with put lreq show False by simp
  qed
  have part: "k \<noteq> buffill + length req"
  proof
    assume "k = buffill + length req"
    then have "fst (sputn s n f) = length req"
      using o dir unfolding limit_def k_def buffill_def req_def
      by (simp add: sputn_def Let_def)
    with put lreq show False by simp
  qed
  then obtain r where r: "room f = Some r" and rk: "k = r" and rlt: "r < buffill + length req"
    by (cases "room f") (auto simp: k_def accepted_def min_def split: if_splits)
  have dev: "device (snd (sputn s n f)) = device f @ take k (put_area f @ req)"
    using o dir part unfolding limit_def k_def buffill_def req_def
    by (simp add: sputn_def Let_def)
  have "capacity f = Some (length (device f) + r)" using r by (simp add: capacity_def)
  moreover have "length (device f) + r < length (written f @ take n s)"
    using rlt by (simp add: written_def buffill_def req_def)
  moreover have "device (snd (sputn s n f)) = take (length (device f) + r) (written f @ take n s)"
    using dev rk by (simp add: written_def req_def)
  ultimately show ?thesis by blast
qed

lemma ostream_write_frame:
  "is_open (ostream_write s n f) = is_open f"
  "close_ok (ostream_write s n f) = close_ok f"
  "buf_size (ostream_write s n f) = buf_size f"
  by (simp_all add: ostream_write_def sputn_frame split: prod.splits)
    (metis snd_conv sputn_frame(4), metis snd_conv sputn_frame(5), metis snd_conv sputn_frame(6))

lemma fail_ostream_write: "ios_fail (ostream_write s n f) = write_reports_failure s n f"
proof (cases "ios_good f")
  case False
  then show ?thesis by (simp add: ostream_write_def write_reports_failure_def ios_fail_def)
next
  case True
  obtain put f1 where sp: "sputn s (nat n) f = (put, f1)" by force
  have "failbit f1 = failbit f" "badbit f1 = badbit f"
    using sputn_frame(2,3) [of s "nat n" f] sp by simp_all
  then have "\<not> ios_fail f1" using good_not_fail [OF True] by (simp add: ios_fail_def)
  then show ?thesis
    using True good_not_fail [OF True]
    by (auto simp: ostream_write_def write_reports_failure_def sp ios_fail_def)
qed

lemma fail_ostream_write_mono: "ios_fail f \<Longrightarrow> ios_fail (ostream_write s n f)"
  by (auto simp: fail_ostream_write write_reports_failure_def dest: good_not_fail)

lemma ostream_write_after_failure:
  assumes "\<not> ios_good f"
  shows "device (ostream_write s n f) = device f" and "\<not> ios_good (ostream_write s n f)"
  using assms by (simp_all add: ostream_write_def ios_good_def)

lemma prefix_device_ostream_write: "prefix (device f) (device (ostream_write s n f))"
proof -
  have "prefix (device f) (device (snd (sputn s (nat n) f)))" by (rule prefix_device_sputn)
  then show ?thesis by (auto simp: ostream_write_def split: prod.splits)
qed

lemma ostream_write_not_fail:
  assumes nf: "\<not> ios_fail (ostream_write s n f)" and pre: "0 < n \<or> buffer_ready f"
  shows "ios_good f" and "ios_good (ostream_write s n f)" and "0 \<le> n" and "nat n \<le> length s"
    and "written (ostream_write s n f) = written f @ take (nat n) s"
    and "buffer_ready (ostream_write s n f)"
    and "capacity (ostream_write s n f) = capacity f"
    and "0 < n \<longrightarrow> is_open f"
proof -
  from nf have w: "\<not> write_reports_failure s n f" by (simp add: fail_ostream_write)
  then show g: "ios_good f" by (simp add: write_reports_failure_def split: if_splits)
  from w g show n0: "0 \<le> n" by (simp add: write_reports_failure_def)
  from w g have "int (fst (sputn s (nat n) f)) = n"
    by (simp add: write_reports_failure_def)
  then have put: "fst (sputn s (nat n) f) = nat n" by linarith
  have pre': "0 < nat n \<or> buffer_ready f" using pre by auto
  note sp = sputn_success [OF put pre']
  have ow: "ostream_write s n f = snd (sputn s (nat n) f)"
    using g n0 put by (auto simp: ostream_write_def split: prod.splits)
  show "ios_good (ostream_write s n f)"
    using g by (simp add: ow ios_good_def sputn_frame)
  show "nat n \<le> length s" by (rule sp(1))
  show "written (ostream_write s n f) = written f @ take (nat n) s" by (simp add: ow sp(2))
  show "buffer_ready (ostream_write s n f)" by (simp add: ow sp(3))
  show "capacity (ostream_write s n f) = capacity f" by (simp add: ow sp(4))
  show "0 < n \<longrightarrow> is_open f" using sp(5) by simp
qed

lemma ostream_write_fails:
  assumes g: "ios_good f" and o: "is_open f" and valid: "n \<le> length s"
    and fl: "ios_fail (ostream_write s (int n) f)"
  shows "\<exists>c. capacity f = Some c \<and> c < length (written f @ take n s)
           \<and> device (ostream_write s (int n) f) = take c (written f @ take n s)"
proof -
  from fl g have put: "fst (sputn s n f) \<noteq> n"
    by (simp add: fail_ostream_write write_reports_failure_def)
  have "device (ostream_write s (int n) f) = device (snd (sputn s n f))"
    using g by (simp add: ostream_write_def split: prod.splits)
  then show ?thesis using sputn_short [OF o valid put] by simp
qed

lemma WriteRecord_states:
  "WriteRecord buffer len f =
     (\<not> ios_fail (ostream_write buffer (streamsize_of len)
          (ostream_write (size_bytes len) (int sizeof_size_t)
            (ostream_write (int_bytes kMagicNumber) (int sizeof_int) f))),
      ostream_write buffer (streamsize_of len)
          (ostream_write (size_bytes len) (int sizeof_size_t)
            (ostream_write (int_bytes kMagicNumber) (int sizeof_int) f)))"
  by (simp add: WriteRecord_def Let_def)

lemma WriteRecord_success:
  assumes "fst (WriteRecord buffer len f)"
  shows "written (snd (WriteRecord buffer len f)) =
           written f @ int_bytes kMagicNumber @ size_bytes len @ take (unat len) buffer"
    and "unat len \<le> length buffer" and "unat len \<le> PTRDIFF_MAX"
    and "ios_good f" and "ios_good (snd (WriteRecord buffer len f))"
    and "is_open f" and "buffer_ready (snd (WriteRecord buffer len f))"
    and "capacity (snd (WriteRecord buffer len f)) = capacity f"
proof -
  define f1 where "f1 = ostream_write (int_bytes kMagicNumber) (int sizeof_int) f"
  define f2 where "f2 = ostream_write (size_bytes len) (int sizeof_size_t) f1"
  define f3 where "f3 = ostream_write buffer (streamsize_of len) f2"
  have W: "WriteRecord buffer len f = (\<not> ios_fail f3, f3)"
    by (simp add: WriteRecord_states f1_def f2_def f3_def)
  from assms W have nf3: "\<not> ios_fail f3" by simp
  have nf2: "\<not> ios_fail f2"
    using nf3 fail_ostream_write_mono [of f2 buffer "streamsize_of len"] by (auto simp: f3_def)
  have nf1: "\<not> ios_fail f1"
    using nf2 fail_ostream_write_mono [of f1 "size_bytes len" "int sizeof_size_t"]
    by (auto simp: f2_def)
  have p1: "0 < int sizeof_int \<or> buffer_ready f" by (simp add: sizeof_int_def)
  note w1 = ostream_write_not_fail [OF nf1 [unfolded f1_def] p1, folded f1_def]
  have p2: "0 < int sizeof_size_t \<or> buffer_ready f1" by (simp add: sizeof_size_t_def)
  note w2 = ostream_write_not_fail [OF nf2 [unfolded f2_def] p2, folded f2_def]
  have p3: "0 < streamsize_of len \<or> buffer_ready f2" using w2(6) by simp
  note w3 = ostream_write_not_fail [OF nf3 [unfolded f3_def] p3, folded f3_def]
  note s = streamsize_of_nonneg [OF w3(3)]
  show "ios_good f" by (rule w1(1))
  show "is_open f" using w1(8) by (simp add: sizeof_int_def)
  show "ios_good (snd (WriteRecord buffer len f))" using W w3(2) by simp
  show "buffer_ready (snd (WriteRecord buffer len f))" using W w3(6) by simp
  show "capacity (snd (WriteRecord buffer len f)) = capacity f" using W w1(7) w2(7) w3(7) by simp
  show "unat len \<le> length buffer" using w3(4) s(1) by simp
  show "unat len \<le> PTRDIFF_MAX" by (rule s(2))
  have "written f3 = written f @ take (nat (int sizeof_int)) (int_bytes kMagicNumber)
      @ take (nat (int sizeof_size_t)) (size_bytes len) @ take (unat len) buffer"
    using w1(5) w2(5) w3(5) s(1) by simp
  then show "written (snd (WriteRecord buffer len f)) =
           written f @ int_bytes kMagicNumber @ size_bytes len @ take (unat len) buffer"
    using W by (simp add: sizeof_int_def sizeof_size_t_def)
qed

lemma WriteRecord_frame:
  "is_open (snd (WriteRecord buffer len f)) = is_open f"
  "close_ok (snd (WriteRecord buffer len f)) = close_ok f"
  "buf_size (snd (WriteRecord buffer len f)) = buf_size f"
  by (simp_all add: WriteRecord_states ostream_write_frame)

lemma fail_WriteRecord_mono: "ios_fail f \<Longrightarrow> ios_fail (snd (WriteRecord buffer len f))"
  by (simp add: WriteRecord_states fail_ostream_write_mono)

lemma prefix_device_WriteRecord: "prefix (device f) (device (snd (WriteRecord buffer len f)))"
proof -
  define f1 where "f1 = ostream_write (int_bytes kMagicNumber) (int sizeof_int) f"
  define f2 where "f2 = ostream_write (size_bytes len) (int sizeof_size_t) f1"
  define f3 where "f3 = ostream_write buffer (streamsize_of len) f2"
  have W: "WriteRecord buffer len f = (\<not> ios_fail f3, f3)"
    by (simp add: WriteRecord_states f1_def f2_def f3_def)
  have "prefix (device f) (device f1)" unfolding f1_def by (rule prefix_device_ostream_write)
  also have "prefix (device f1) (device f2)" unfolding f2_def by (rule prefix_device_ostream_write)
  also have "prefix (device f2) (device f3)" unfolding f3_def by (rule prefix_device_ostream_write)
  finally show ?thesis using W by simp
qed

section \<open>Failure and success of a whole record\<close>

lemma take_prefix_of_longer: "c < length xs \<Longrightarrow> take c (xs @ ys) = take c xs"
  by simp

lemma WriteRecord_failure_truncates:
  assumes g: "ios_good f" and o: "is_open f"
    and len: "unat len \<le> length buffer" and ptr: "unat len \<le> PTRDIFF_MAX"
    and nok: "\<not> fst (WriteRecord buffer len f)"
  shows "\<exists>c. capacity f = Some c
           \<and> c < length (written f @ int_bytes kMagicNumber @ size_bytes len @ take (unat len) buffer)
           \<and> device (snd (WriteRecord buffer len f)) =
               take c (written f @ int_bytes kMagicNumber @ size_bytes len @ take (unat len) buffer)"
proof -
  define f1 where "f1 = ostream_write (int_bytes kMagicNumber) (int sizeof_int) f"
  define f2 where "f2 = ostream_write (size_bytes len) (int sizeof_size_t) f1"
  define f3 where "f3 = ostream_write buffer (streamsize_of len) f2"
  define F where "F = int_bytes kMagicNumber @ size_bytes len @ take (unat len) buffer"
  have W: "WriteRecord buffer len f = (\<not> ios_fail f3, f3)"
    by (simp add: WriteRecord_states f1_def f2_def f3_def)
  have f3': "f3 = ostream_write buffer (int (unat len)) f2"
    by (simp only: f3_def streamsize_of_small [OF ptr])
  from nok W have fail3: "ios_fail f3" by simp
  have goal: "\<exists>c. capacity f = Some c \<and> c < length (written f @ F) \<and> device f3 = take c (written f @ F)"
  proof (cases "ios_fail f1")
    case True
    obtain c where c: "capacity f = Some c" "c < length (written f @ take 4 (int_bytes kMagicNumber))"
        "device f1 = take c (written f @ take 4 (int_bytes kMagicNumber))"
      using ostream_write_fails [OF g o, of sizeof_int "int_bytes kMagicNumber"] True
      by (auto simp: f1_def sizeof_int_def)
    have ng1: "\<not> ios_good f1" using True good_not_fail by blast
    have d2: "device f2 = device f1" and ng2: "\<not> ios_good f2"
      using ostream_write_after_failure [OF ng1] by (simp_all add: f2_def)
    have d3: "device f3 = device f2"
      using ostream_write_after_failure [OF ng2] by (simp add: f3_def)
    have "take c (written f @ F) = take c (written f @ int_bytes kMagicNumber)"
      using c(2) take_prefix_of_longer [of c "written f @ int_bytes kMagicNumber"
          "size_bytes len @ take (unat len) buffer"]
      by (simp add: F_def)
    then show ?thesis using c d2 d3 by (auto simp: F_def)
  next
    case nf1: False
    have p1: "0 < int sizeof_int \<or> buffer_ready f" by (simp add: sizeof_int_def)
    note w1 = ostream_write_not_fail [OF nf1 [unfolded f1_def] p1, folded f1_def]
    have o1: "is_open f1" using o by (simp add: f1_def ostream_write_frame)
    have wr1: "written f1 = written f @ int_bytes kMagicNumber"
      using w1(5) by (simp add: sizeof_int_def)
    show ?thesis
    proof (cases "ios_fail f2")
      case True
      obtain c where c: "capacity f1 = Some c" "c < length (written f1 @ take 8 (size_bytes len))"
          "device f2 = take c (written f1 @ take 8 (size_bytes len))"
        using ostream_write_fails [OF w1(2) o1, of sizeof_size_t "size_bytes len"] True
        by (auto simp: f2_def sizeof_size_t_def)
      have ng2: "\<not> ios_good f2" using True good_not_fail by blast
      have d3: "device f3 = device f2"
        using ostream_write_after_failure [OF ng2] by (simp add: f3_def)
      have "take c (written f @ F) = take c (written f @ int_bytes kMagicNumber @ size_bytes len)"
        using c(2) take_prefix_of_longer [of c "written f @ int_bytes kMagicNumber @ size_bytes len"
            "take (unat len) buffer"]
        by (simp add: F_def wr1)
      then show ?thesis using c d3 w1(7) by (auto simp: F_def wr1)
    next
      case nf2: False
      have p2: "0 < int sizeof_size_t \<or> buffer_ready f1" by (simp add: sizeof_size_t_def)
      note w2 = ostream_write_not_fail [OF nf2 [unfolded f2_def] p2, folded f2_def]
      have o2: "is_open f2" using o1 by (simp add: f2_def ostream_write_frame)
      have wr2: "written f2 = written f @ int_bytes kMagicNumber @ size_bytes len"
        using w2(5) wr1 by (simp add: sizeof_size_t_def)
      obtain c where c: "capacity f2 = Some c" "c < length (written f2 @ take (unat len) buffer)"
          "device f3 = take c (written f2 @ take (unat len) buffer)"
        using ostream_write_fails [OF w2(2) o2 len] fail3 by (auto simp: f3')
      show ?thesis using c w1(7) w2(7) by (auto simp: F_def wr2)
    qed
  qed
  then show ?thesis using W by (simp add: F_def)
qed

lemma WriteRecord_unlimited:
  assumes g: "ios_good f" and o: "is_open f" and r: "room f = None"
    and len: "unat len \<le> length buffer" and ptr: "unat len \<le> PTRDIFF_MAX"
  shows "fst (WriteRecord buffer len f)"
    and "room (snd (WriteRecord buffer len f)) = None"
proof -
  show ok: "fst (WriteRecord buffer len f)"
  proof (rule ccontr)
    assume "\<not> fst (WriteRecord buffer len f)"
    from WriteRecord_failure_truncates [OF g o len ptr this]
    obtain c where "capacity f = Some c" by blast
    then show False using r by (simp add: capacity_def)
  qed
  have "capacity (snd (WriteRecord buffer len f)) = capacity f"
    by (rule WriteRecord_success(8) [OF ok])
  then show "room (snd (WriteRecord buffer len f)) = None"
    using r by (simp add: capacity_def)
qed

lemma RecordWriter_Close_succeeded:
  assumes "\<not> fst (RecordWriter_Close f)"
  shows "\<not> ios_fail f" and "device (snd (RecordWriter_Close f)) = written f"
proof -
  have o: "is_open f"
    using assms
    by (cases "is_open f") (auto simp: RecordWriter_Close_def ofstream_close_def ios_fail_def)
  have nc: "\<not> ofstream_closing_fails f"
    using assms o
    by (auto simp: RecordWriter_Close_def ofstream_close_def Let_def ios_fail_def)
  then have k: "accepted f (length (put_area f)) = length (put_area f)"
    using o accepted_le [of f "length (put_area f)"]
    by (simp add: ofstream_closing_fails_def flush_fails_def)
  show "\<not> ios_fail f"
    using assms o nc
    by (simp add: RecordWriter_Close_def ofstream_close_def Let_def ios_fail_def)
  show "device (snd (RecordWriter_Close f)) = written f"
    using o nc k by (simp add: RecordWriter_Close_def ofstream_close_def Let_def written_def)
qed

lemma RecordWriter_Close_unlimited:
  assumes "\<not> ios_fail f" and "is_open f" and "close_ok f" and "room f = None"
  shows "\<not> fst (RecordWriter_Close f)"
  using assms
  by (simp add: RecordWriter_Close_def ofstream_close_def Let_def ios_fail_def
      ofstream_closing_fails_def flush_fails_def accepted_def)

lemma good_fresh_ofstream [simp]: "ios_good (fresh_ofstream r)"
  by (simp add: fresh_ofstream_def ios_good_def)

lemma written_fresh_ofstream [simp]: "written (fresh_ofstream r) = []"
  by (simp add: fresh_ofstream_def written_def)

lemma fresh_ofstream_simps [simp]:
  "is_open (fresh_ofstream r)" "close_ok (fresh_ofstream r)" "room (fresh_ofstream r) = r"
  "device (fresh_ofstream r) = []" "put_area (fresh_ofstream r) = []"
  by (simp_all add: fresh_ofstream_def)

lemma write_records_frame:
  "is_open (snd (write_records ps f)) = is_open f"
  "close_ok (snd (write_records ps f)) = close_ok f"
  by (induction ps arbitrary: f)
    (simp_all add: WriteRecord_string_def split: prod.splits,
      (metis WriteRecord_frame(1) snd_conv)+, (metis WriteRecord_frame(2) snd_conv)+)

lemma fail_write_records_mono: "ios_fail f \<Longrightarrow> ios_fail (snd (write_records ps f))"
proof (induction ps arbitrary: f)
  case Nil
  then show ?case by simp
next
  case (Cons p ps)
  have "ios_fail (snd (WriteRecord p (of_nat (length p)) f))"
    using Cons.prems by (rule fail_WriteRecord_mono)
  then have "ios_fail (snd (write_records ps (snd (WriteRecord p (of_nat (length p)) f))))"
    by (rule Cons.IH)
  then show ?case by (auto simp: WriteRecord_string_def split: prod.splits)
qed

lemma write_records_not_fail:
  assumes "\<not> ios_fail (snd (write_records ps f))"
    and "\<forall>p\<in>set ps. length p \<le> PTRDIFF_MAX"
  shows "written (snd (write_records ps f)) = written f @ concat (map frame ps)
         \<and> (\<forall>ok\<in>set (fst (write_records ps f)). ok)"
  using assms
proof (induction ps arbitrary: f)
  case Nil
  show ?case by simp
next
  case (Cons p ps)
  define f1 where "f1 = snd (WriteRecord p (of_nat (length p)) f)"
  have wr: "write_records (p # ps) f =
      (fst (WriteRecord p (of_nat (length p)) f) # fst (write_records ps f1), snd (write_records ps f1))"
    by (simp add: WriteRecord_string_def f1_def split: prod.splits)
  have lp: "unat (of_nat (length p) :: size_t) = length p"
    using Cons.prems(2) by (simp add: unat_of_nat_length)
  have sz: "\<forall>p\<in>set ps. length p \<le> PTRDIFF_MAX" using Cons.prems(2) by simp
  have nfe: "\<not> ios_fail (snd (write_records ps f1))"
    using Cons.prems(1) unfolding wr by simp
  then have nf1: "\<not> ios_fail f1" using fail_write_records_mono by blast
  then have ok: "fst (WriteRecord p (of_nat (length p)) f)"
    by (simp add: f1_def WriteRecord_states)
  have w1: "written f1 = written f @ frame p"
    using WriteRecord_success(1) [OF ok] by (simp add: f1_def lp frame_def)
  show ?case unfolding wr using Cons.IH [OF nfe sz] ok by (auto simp: w1)
qed

lemma write_records_unlimited:
  assumes "ios_good f" "is_open f" "room f = None"
    and "\<forall>p\<in>set ps. length p \<le> PTRDIFF_MAX"
  shows "\<not> ios_fail (snd (write_records ps f)) \<and> room (snd (write_records ps f)) = None"
  using assms
proof (induction ps arbitrary: f)
  case Nil
  then show ?case by (simp add: good_not_fail)
next
  case (Cons p ps)
  define f1 where "f1 = snd (WriteRecord p (of_nat (length p)) f)"
  have wr: "snd (write_records (p # ps) f) = snd (write_records ps f1)"
    by (simp add: WriteRecord_string_def f1_def split: prod.splits)
  have lp: "unat (of_nat (length p) :: size_t) = length p"
    using Cons.prems(4) by (simp add: unat_of_nat_length)
  have a: "unat (of_nat (length p) :: size_t) \<le> length p"
    and b: "unat (of_nat (length p) :: size_t) \<le> PTRDIFF_MAX"
    using lp Cons.prems(4) by simp_all
  note u = WriteRecord_unlimited [OF Cons.prems(1-3) a b]
  have g1: "ios_good f1" using WriteRecord_success(5) [OF u(1)] by (simp add: f1_def)
  have o1: "is_open f1" using Cons.prems(2) by (simp add: f1_def WriteRecord_frame)
  have r1: "room f1 = None" using u(2) by (simp add: f1_def)
  show ?case unfolding wr using Cons.IH [OF g1 o1 r1] Cons.prems(4) by simp
qed

section \<open>Facts about the input stream and the reader\<close>

lemma good_open_ifstream [simp]: "ios_good (open_ifstream bs)"
  by (simp add: open_ifstream_def ios_good_def)

lemma available_open_ifstream [simp]: "available (open_ifstream bs) = bs"
  by (simp add: open_ifstream_def available_def)

lemma pending_open_ifstream [simp]: "pending (open_ifstream bs) = bs"
  by (simp add: open_ifstream_def)

lemma fail_open_ifstream [simp]: "\<not> ios_fail (open_ifstream bs)"
  by (simp add: open_ifstream_def ios_fail_def)

lemma open_ifstream_pending [simp]: "(open_ifstream bs)\<lparr>pending := cs\<rparr> = open_ifstream cs"
  by (simp add: open_ifstream_def)

lemma istream_read_open_exact:
  assumes "length xs = n"
  shows "istream_read (int n) (open_ifstream (xs @ ys)) = (xs, open_ifstream ys)"
  using assms by (simp add: istream_read_def Let_def)

lemma istream_read_open_short:
  assumes "int (length bs) < n"
  shows "istream_read n (open_ifstream bs) = (bs, exhausted)"
proof -
  have "take (nat n) bs = bs" using assms by simp
  then show ?thesis using assms by (simp add: istream_read_def Let_def exhausted_def)
qed

lemma fail_exhausted [simp]: "ios_fail exhausted"
  by (simp add: exhausted_def ios_fail_def)

lemma overwrite_full [simp]: "length got = length old \<Longrightarrow> overwrite got old = got"
  by (simp add: overwrite_def)

lemma heap_fresh_block:
  "new_char_array n h = Inr (a, h1) \<Longrightarrow> length got = n \<Longrightarrow>
     heap_store a got h1 = h\<lparr>blocks := (a, got) # blocks h, next_addr := Suc (next_addr h)\<rparr>"
  by (auto simp: new_char_array_def heap_store_def split: if_splits)

lemma ReadRecord_whole_frame:
  assumes len: "length p = unat len"
    and ptr: "unat len \<le> PTRDIFF_MAX"
    and lim: "unat len \<le> alloc_limit h"
  shows "ReadRecord len0 (open_ifstream (int_bytes kMagicNumber @ size_bytes len @ p @ rest)) h =
           Inr (True, Some (next_addr h), len, open_ifstream rest,
                h\<lparr>blocks := (next_addr h, p) # blocks h, next_addr := Suc (next_addr h)\<rparr>)"
proof -
  have r1: "istream_read (int sizeof_int) (open_ifstream (int_bytes kMagicNumber @ size_bytes len @ p @ rest))
              = (int_bytes kMagicNumber, open_ifstream (size_bytes len @ p @ rest))"
    by (rule istream_read_open_exact) (simp add: sizeof_int_def)
  have r2: "istream_read (int sizeof_size_t) (open_ifstream (size_bytes len @ p @ rest))
              = (size_bytes len, open_ifstream (p @ rest))"
    by (rule istream_read_open_exact) (simp add: sizeof_size_t_def)
  have r3: "istream_read (streamsize_of len) (open_ifstream (p @ rest)) = (p, open_ifstream rest)"
    unfolding streamsize_of_small [OF ptr]
    by (rule istream_read_open_exact) (rule len)
  have a: "new_char_array (unat len) h =
             Inr (next_addr h, h\<lparr>blocks := (next_addr h, replicate (unat len) 0) # blocks h,
                                  next_addr := Suc (next_addr h)\<rparr>)"
    using ptr lim by (simp add: new_char_array_def)
  have st: "heap_store (next_addr h) p
              (h\<lparr>blocks := (next_addr h, replicate (unat len) 0) # blocks h,
                  next_addr := Suc (next_addr h)\<rparr>)
            = h\<lparr>blocks := (next_addr h, p) # blocks h, next_addr := Suc (next_addr h)\<rparr>"
    using len by (simp add: heap_store_def)
  show ?thesis
    by (simp add: ReadRecord_def r1 r2 r3 a st)
qed

lemma ReadRecord_string_whole_frame:
  assumes len: "length p = unat len"
    and ptr: "unat len \<le> PTRDIFF_MAX"
    and lim: "unat len \<le> alloc_limit h"
  shows "ReadRecord_string data (open_ifstream (int_bytes kMagicNumber @ size_bytes len @ p @ rest)) h =
           Inr (True, p, open_ifstream rest, h\<lparr>next_addr := Suc (next_addr h)\<rparr>)"
  using len
  by (simp add: ReadRecord_string_def ReadRecord_whole_frame [OF assms] heap_load_def
      delete_array_def)

lemma ReadRecord_no_magic:
  assumes "take 4 bs \<noteq> int_bytes kMagicNumber"
  shows "ReadRecord len0 (open_ifstream bs) h =
           Inr (False, None, len0, snd (istream_read (int sizeof_int) (open_ifstream bs)), h)"
proof (cases "4 \<le> length bs")
  case True
  have "istream_read (int 4) (open_ifstream (take 4 bs @ drop 4 bs))
          = (take 4 bs, open_ifstream (drop 4 bs))"
    by (rule istream_read_open_exact) (use True in simp)
  then have r: "istream_read (int sizeof_int) (open_ifstream bs) = (take 4 bs, open_ifstream (drop 4 bs))"
    by (simp add: sizeof_int_def)
  have "int_of_bytes (take 4 bs) \<noteq> kMagicNumber"
  proof
    assume "int_of_bytes (take 4 bs) = kMagicNumber"
    then have "int_bytes (int_of_bytes (take 4 bs)) = int_bytes kMagicNumber" by simp
    then show False
      using assms True by (simp add: int_bytes_int_of_bytes)
  qed
  then show ?thesis
    using True by (simp add: ReadRecord_def r)
next
  case False
  then have "istream_read (int sizeof_int) (open_ifstream bs) = (bs, exhausted)"
    by (intro istream_read_open_short) (simp add: sizeof_int_def)
  then show ?thesis by (simp add: ReadRecord_def)
qed

lemma ReadRecord_string_empty:
  "ReadRecord_string data (open_ifstream []) h = Inr (False, data, exhausted, h)"
proof -
  have "istream_read (int sizeof_int) (open_ifstream []) = ([], exhausted)"
    by (rule istream_read_open_short) (simp add: sizeof_int_def)
  then show ?thesis by (simp add: ReadRecord_string_def ReadRecord_def)
qed

lemma read_records_frames:
  assumes "\<forall>p\<in>set ps. length p \<le> PTRDIFF_MAX \<and> length p \<le> alloc_limit h"
  shows "read_records (Suc (length ps)) (open_ifstream (concat (map frame ps))) h =
           Inr (map Some ps @ [None], exhausted, h\<lparr>next_addr := next_addr h + length ps\<rparr>)"
  using assms
proof (induction ps arbitrary: h)
  case Nil
  show ?case by (simp add: ReadRecord_string_empty)
next
  case (Cons p ps)
  have lp: "unat (of_nat (length p) :: size_t) = length p"
    using Cons.prems by (simp add: unat_of_nat_length)
  have one: "ReadRecord_string [] (open_ifstream (frame p @ concat (map frame ps))) h =
         Inr (True, p, open_ifstream (concat (map frame ps)), h\<lparr>next_addr := Suc (next_addr h)\<rparr>)"
    using ReadRecord_string_whole_frame [of p "of_nat (length p)" h "[]" "concat (map frame ps)"]
      lp Cons.prems
    by (simp add: frame_def)
  have rest: "read_records (Suc (length ps)) (open_ifstream (concat (map frame ps)))
                (h\<lparr>next_addr := Suc (next_addr h)\<rparr>) =
              Inr (map Some ps @ [None], exhausted,
                   h\<lparr>next_addr := Suc (next_addr h) + length ps\<rparr>)"
    using Cons.IH [of "h\<lparr>next_addr := Suc (next_addr h)\<rparr>"] Cons.prems by simp
  have "read_records (Suc (Suc (length ps))) (open_ifstream (frame p @ concat (map frame ps))) h =
          Inr (Some p # map Some ps @ [None], exhausted,
               h\<lparr>next_addr := Suc (next_addr h) + length ps\<rparr>)"
    unfolding read_records.simps(2) [of "Suc (length ps)"] one using rest by simp
  then show ?case by simp
qed

lemma ReadRecordSized_whole_frame:
  assumes len: "length p = unat len" and ptr: "unat len \<le> PTRDIFF_MAX"
  shows "ReadRecordSized buffer len (open_ifstream (int_bytes kMagicNumber @ size_bytes len @ p @ rest)) =
           (True, overwrite p buffer, open_ifstream rest)"
proof -
  have r1: "istream_read (int sizeof_int) (open_ifstream (int_bytes kMagicNumber @ size_bytes len @ p @ rest))
              = (int_bytes kMagicNumber, open_ifstream (size_bytes len @ p @ rest))"
    by (rule istream_read_open_exact) (simp add: sizeof_int_def)
  have r2: "istream_read (int sizeof_size_t) (open_ifstream (size_bytes len @ p @ rest))
              = (size_bytes len, open_ifstream (p @ rest))"
    by (rule istream_read_open_exact) (simp add: sizeof_size_t_def)
  have r3: "istream_read (streamsize_of len) (open_ifstream (p @ rest)) = (p, open_ifstream rest)"
    unfolding streamsize_of_small [OF ptr]
    by (rule istream_read_open_exact) (rule len)
  show ?thesis
    by (simp add: ReadRecordSized_def r1 r2 r3)
qed

lemma ReadRecordSized_other_size:
  assumes "M \<noteq> L"
  shows "ReadRecordSized buffer M (open_ifstream (int_bytes kMagicNumber @ size_bytes L @ tl0)) =
           (False, buffer, open_ifstream tl0)"
proof -
  have r1: "istream_read (int sizeof_int) (open_ifstream (int_bytes kMagicNumber @ size_bytes L @ tl0))
              = (int_bytes kMagicNumber, open_ifstream (size_bytes L @ tl0))"
    by (rule istream_read_open_exact) (simp add: sizeof_int_def)
  have r2: "istream_read (int sizeof_size_t) (open_ifstream (size_bytes L @ tl0))
              = (size_bytes L, open_ifstream tl0)"
    by (rule istream_read_open_exact) (simp add: sizeof_size_t_def)
  show ?thesis
    using assms by (auto simp: ReadRecordSized_def r1 r2)
qed

lemma pending_after_magic_read:
  "pending (snd (istream_read (int sizeof_int) (open_ifstream bs))) = drop 4 bs"
  by (simp add: istream_read_def Let_def sizeof_int_def)

lemma less_unat_uint: "(m < unat w) = (int m < uint w)"
  by (metis of_nat_less_iff uint_nat)

lemma ReadRecord_header_then_short:
  assumes "length p < unat len"
  shows "ReadRecord len0 (open_ifstream (int_bytes kMagicNumber @ size_bytes len @ p)) h =
           (if unat len \<le> alloc_limit h \<and> unat len \<le> PTRDIFF_MAX
            then Inr (False, None, len, exhausted, h\<lparr>next_addr := Suc (next_addr h)\<rparr>)
            else Inl bad_alloc)"
proof -
  have r1: "istream_read (int sizeof_int) (open_ifstream (int_bytes kMagicNumber @ size_bytes len @ p))
              = (int_bytes kMagicNumber, open_ifstream (size_bytes len @ p))"
    by (rule istream_read_open_exact) (simp add: sizeof_int_def)
  have r2: "istream_read (int sizeof_size_t) (open_ifstream (size_bytes len @ p))
              = (size_bytes len, open_ifstream p)"
    using istream_read_open_exact [of "size_bytes len" sizeof_size_t p]
    by (simp add: sizeof_size_t_def)
  show ?thesis
  proof (cases "unat len \<le> alloc_limit h \<and> unat len \<le> PTRDIFF_MAX")
    case False
    then have "new_char_array (unat len) h = Inl bad_alloc"
      by (simp add: new_char_array_def)
    then show ?thesis using False by (simp add: ReadRecord_def r1 r2)
  next
    case True
    then have ptr: "unat len \<le> PTRDIFF_MAX" by simp
    have a: "new_char_array (unat len) h =
               Inr (next_addr h, h\<lparr>blocks := (next_addr h, replicate (unat len) 0) # blocks h,
                                    next_addr := Suc (next_addr h)\<rparr>)"
      using True by (simp add: new_char_array_def)
    have r3: "istream_read (streamsize_of len) (open_ifstream p) = (p, exhausted)"
      by (rule istream_read_open_short) (use assms in \<open>simp add: streamsize_of_small [OF ptr] less_unat_uint\<close>)
    have d: "delete_array (next_addr h) (heap_store (next_addr h) p
               (h\<lparr>blocks := (next_addr h, replicate (unat len) 0) # blocks h,
                   next_addr := Suc (next_addr h)\<rparr>))
             = h\<lparr>next_addr := Suc (next_addr h)\<rparr>"
      by (simp add: delete_array_def heap_store_def)
    show ?thesis using True by (simp add: ReadRecord_def r1 r2 r3 a d)
  qed
qed

lemma ReadRecord_empty:
  "ReadRecord len0 (open_ifstream []) h = Inr (False, None, len0, exhausted, h)"
proof -
  have "istream_read (int sizeof_int) (open_ifstream []) = ([], exhausted)"
    by (rule istream_read_open_short) (simp add: sizeof_int_def)
  then show ?thesis by (simp add: ReadRecord_def)
qed

section \<open>Records that stay in the buffer, and records that do not\<close>

lemma ostream_write_buffered:
  assumes "ios_good f" and "is_open f" and "n \<le> length s"
    and "n < 1024" and "length (put_area f) + n + 1 < buf_size f"
  shows "ostream_write s (int n) f = f\<lparr>put_area := put_area f @ take n s\<rparr>"
  using assms by (simp add: ostream_write_def sputn_def Let_def min_absorb2)

lemma WriteRecord_buffered:
  assumes g: "ios_good f" and o: "is_open f"
    and len: "unat len \<le> length buffer" and ptr: "unat len \<le> PTRDIFF_MAX"
    and small: "unat len < 1024" and fits: "length (put_area f) + unat len + 13 < buf_size f"
  shows "WriteRecord buffer len f =
           (True, f\<lparr>put_area := put_area f @ int_bytes kMagicNumber @ size_bytes len
                                 @ take (unat len) buffer\<rparr>)"
proof -
  define f1 where "f1 = f\<lparr>put_area := put_area f @ int_bytes kMagicNumber\<rparr>"
  define f2 where "f2 = f1\<lparr>put_area := put_area f1 @ size_bytes len\<rparr>"
  define f3 where "f3 = f2\<lparr>put_area := put_area f2 @ take (unat len) buffer\<rparr>"
  have w1: "ostream_write (int_bytes kMagicNumber) (int sizeof_int) f = f1"
    using ostream_write_buffered [OF g o, of sizeof_int "int_bytes kMagicNumber"] fits
    by (simp add: f1_def sizeof_int_def)
  have g1: "ios_good f1" "is_open f1" using g o by (simp_all add: f1_def ios_good_def)
  have w2: "ostream_write (size_bytes len) (int sizeof_size_t) f1 = f2"
    using ostream_write_buffered [OF g1, of sizeof_size_t "size_bytes len"] fits
    by (simp add: f2_def f1_def sizeof_size_t_def)
  have g2: "ios_good f2" "is_open f2" using g1 by (simp_all add: f2_def ios_good_def)
  have w3: "ostream_write buffer (streamsize_of len) f2 = f3"
    using ostream_write_buffered [OF g2 len small] fits
    by (simp add: f3_def f2_def f1_def streamsize_of_small [OF ptr])
  have "\<not> ios_fail f3" using g by (simp add: f3_def f2_def f1_def ios_good_def ios_fail_def)
  then show ?thesis
    by (simp add: WriteRecord_states w1 w2 w3) (simp add: f3_def f2_def f1_def)
qed

lemma ReadRecord_alloc_fails:
  assumes "\<not> (unat len \<le> alloc_limit h \<and> unat len \<le> PTRDIFF_MAX)"
  shows "ReadRecord len0 (open_ifstream (int_bytes kMagicNumber @ size_bytes len @ tl0)) h =
           Inl bad_alloc"
proof -
  have r1: "istream_read (int sizeof_int) (open_ifstream (int_bytes kMagicNumber @ size_bytes len @ tl0))
              = (int_bytes kMagicNumber, open_ifstream (size_bytes len @ tl0))"
    by (rule istream_read_open_exact) (simp add: sizeof_int_def)
  have r2: "istream_read (int sizeof_size_t) (open_ifstream (size_bytes len @ tl0))
              = (size_bytes len, open_ifstream tl0)"
    by (rule istream_read_open_exact) (simp add: sizeof_size_t_def)
  have "new_char_array (unat len) h = Inl bad_alloc"
    using assms by (simp add: new_char_array_def)
  then show ?thesis by (simp add: ReadRecord_def r1 r2)
qed

lemma written_after_writes_and_Close:
  assumes cl: "\<not> fst (RecordWriter_Close (snd (write_records ps (fresh_ofstream r))))"
    and sz: "\<forall>p\<in>set ps. length p \<le> PTRDIFF_MAX"
  shows "device (snd (RecordWriter_Close (snd (write_records ps (fresh_ofstream r))))) =
           concat (map frame ps)"
    and "\<forall>ok\<in>set (fst (write_records ps (fresh_ofstream r))). ok"
proof -
  note c = RecordWriter_Close_succeeded [OF cl]
  note w = write_records_not_fail [OF c(1) sz]
  show "device (snd (RecordWriter_Close (snd (write_records ps (fresh_ofstream r))))) =
           concat (map frame ps)"
    using c(2) w by simp
  show "\<forall>ok\<in>set (fst (write_records ps (fresh_ofstream r))). ok"
    using w by blast
qed

lemma writes_and_Close_unlimited:
  assumes sz: "\<forall>p\<in>set ps. length p \<le> PTRDIFF_MAX"
  shows "\<forall>ok\<in>set (fst (write_records ps (fresh_ofstream None))). ok"
    and "\<not> fst (RecordWriter_Close (snd (write_records ps (fresh_ofstream None))))"
proof -
  have u: "\<not> ios_fail (snd (write_records ps (fresh_ofstream None)))
      \<and> room (snd (write_records ps (fresh_ofstream None))) = None"
    by (rule write_records_unlimited [OF _ _ _ sz]) simp_all
  show "\<forall>ok\<in>set (fst (write_records ps (fresh_ofstream None))). ok"
    using write_records_not_fail [OF _ sz, of "fresh_ofstream None"] u by blast
  show "\<not> fst (RecordWriter_Close (snd (write_records ps (fresh_ofstream None))))"
    by (rule RecordWriter_Close_unlimited) (use u in \<open>simp_all add: write_records_frame\<close>)
qed

lemma scenario_write:
  "write_records [[65, 66, 67], [], [68, 69, 70, 71]] (fresh_ofstream None) =
     ([True, True, True],
      (fresh_ofstream None)\<lparr>put_area :=
        [10, 35, 215, 62, 3, 0, 0, 0, 0, 0, 0, 0, 65, 66, 67,
         10, 35, 215, 62, 0, 0, 0, 0, 0, 0, 0, 0,
         10, 35, 215, 62, 4, 0, 0, 0, 0, 0, 0, 0, 68, 69, 70, 71]\<rparr>)"
  by (simp add: WriteRecord_string_def WriteRecord_buffered fresh_ofstream_def BUFSIZ_def
      ios_good_def PTRDIFF_MAX_def magic_bytes size_bytes_unfold)

lemma scenario_close:
  "RecordWriter_Close ((fresh_ofstream None)\<lparr>put_area :=
        [10, 35, 215, 62, 3, 0, 0, 0, 0, 0, 0, 0, 65, 66, 67,
         10, 35, 215, 62, 0, 0, 0, 0, 0, 0, 0, 0,
         10, 35, 215, 62, 4, 0, 0, 0, 0, 0, 0, 0, 68, 69, 70, 71]\<rparr>) =
     (False,
      (fresh_ofstream None)\<lparr>is_open := False, device :=
        [10, 35, 215, 62, 3, 0, 0, 0, 0, 0, 0, 0, 65, 66, 67,
         10, 35, 215, 62, 0, 0, 0, 0, 0, 0, 0, 0,
         10, 35, 215, 62, 4, 0, 0, 0, 0, 0, 0, 0, 68, 69, 70, 71]\<rparr>)"
  by (simp add: RecordWriter_Close_def ofstream_close_def ofstream_closing_fails_def
      flush_fails_def Let_def fresh_ofstream_def ios_fail_def accepted_def)

lemma one_record_write:
  "write_records [[65]] (fresh_ofstream None) =
     ([True],
      (fresh_ofstream None)\<lparr>put_area := [10, 35, 215, 62, 1, 0, 0, 0, 0, 0, 0, 0, 65]\<rparr>)"
  by (simp add: WriteRecord_string_def WriteRecord_buffered fresh_ofstream_def BUFSIZ_def
      ios_good_def PTRDIFF_MAX_def magic_bytes size_bytes_unfold)

lemma one_record_close:
  "RecordWriter_Close
     ((fresh_ofstream None)\<lparr>put_area := [10, 35, 215, 62, 1, 0, 0, 0, 0, 0, 0, 0, 65]\<rparr>) =
     (False,
      (fresh_ofstream None)\<lparr>is_open := False,
         device := [10, 35, 215, 62, 1, 0, 0, 0, 0, 0, 0, 0, 65]\<rparr>)"
  by (simp add: RecordWriter_Close_def ofstream_close_def ofstream_closing_fails_def
      flush_fails_def Let_def fresh_ofstream_def ios_fail_def accepted_def)

lemma ostream_write_direct_short:
  assumes "ios_good f" and "is_open f" and "n \<le> length s" and "0 < n"
    and "min 1024 (buf_size f - 1 - length (put_area f)) \<le> n"
    and "room f = Some r" and "r < length (put_area f) + n"
  shows "ostream_write s (int n) f =
           f\<lparr>device := device f @ take r (put_area f @ take n s), room := Some 0,
             badbit := True\<rparr>"
proof -
  have a: "accepted f (length (put_area f) + n) = r"
    using assms(6,7) by (simp add: accepted_def)
  have "sputn s n f =
      (r - length (put_area f),
       f\<lparr>device := device f @ take r (put_area f @ take n s), room := Some 0\<rparr>)"
    using assms a by (simp add: sputn_def Let_def min_absorb2)
  moreover have "int (r - length (put_area f)) \<noteq> int n" using assms(4,7) by linarith
  ultimately show ?thesis using assms(1) by (simp add: ostream_write_def)
qed

lemma large_record_on_small_device:
  "WriteRecord (replicate 1024 65) 1024 (fresh_ofstream (Some 100)) =
     (False,
      (fresh_ofstream (Some 100))\<lparr>
         device := [10, 35, 215, 62, 0, 4, 0, 0, 0, 0, 0, 0] @ replicate 88 65,
         room := Some 0,
         put_area := [10, 35, 215, 62, 0, 4, 0, 0, 0, 0, 0, 0],
         badbit := True\<rparr>)"
proof -
  define f2 where "f2 = (fresh_ofstream (Some 100))\<lparr>put_area := [10, 35, 215, 62, 0, 4, 0, 0, 0, 0, 0, 0]\<rparr>"
  have w1: "ostream_write (int_bytes kMagicNumber) (int sizeof_int) (fresh_ofstream (Some 100)) =
      (fresh_ofstream (Some 100))\<lparr>put_area := [10, 35, 215, 62]\<rparr>"
    using ostream_write_buffered [of "fresh_ofstream (Some 100)" 4 "int_bytes kMagicNumber"]
    by (simp add: sizeof_int_def magic_bytes fresh_ofstream_def BUFSIZ_def ios_good_def)
  have w2: "ostream_write (size_bytes 1024) (int sizeof_size_t)
        ((fresh_ofstream (Some 100))\<lparr>put_area := [10, 35, 215, 62]\<rparr>) = f2"
    using ostream_write_buffered [of "(fresh_ofstream (Some 100))\<lparr>put_area := [10, 35, 215, 62]\<rparr>"
        8 "size_bytes 1024"]
    by (simp add: sizeof_size_t_def size_bytes_unfold fresh_ofstream_def BUFSIZ_def ios_good_def
        f2_def)
  have s: "streamsize_of 1024 = int 1024"
    using streamsize_of_small [of 1024] by (simp add: PTRDIFF_MAX_def)
  have w3: "ostream_write (replicate 1024 65) (int 1024) f2 =
      f2\<lparr>device := device f2 @ take 100 (put_area f2 @ take 1024 (replicate 1024 65)),
         room := Some 0, badbit := True\<rparr>"
    by (rule ostream_write_direct_short)
      (simp_all add: f2_def fresh_ofstream_def BUFSIZ_def ios_good_def)
  show ?thesis
    unfolding WriteRecord_states w1 w2 s w3
    by (simp add: f2_def fresh_ofstream_def ios_fail_def)
qed

lemma small_record_on_small_device:
  "WriteRecord [65, 66, 67] 3 (fresh_ofstream (Some 14)) =
     (True, (fresh_ofstream (Some 14))\<lparr>put_area :=
        [10, 35, 215, 62, 3, 0, 0, 0, 0, 0, 0, 0, 65, 66, 67]\<rparr>)"
  by (simp add: WriteRecord_buffered fresh_ofstream_def BUFSIZ_def
      ios_good_def PTRDIFF_MAX_def magic_bytes size_bytes_unfold)

section \<open>The properties of the record format\<close>

subsection \<open>Round trip of a sequence of records\<close>

text \<open>
  Claim C1, amended. For every sequence of payloads \<open>ps\<close>, each one an object the writer
  holds in memory (so no longer than \<^verbatim>\<open>PTRDIFF_MAX\<close>) and of a size the reader's allocator
  supplies: \<^verbatim>\<open>WriteRecord\<close> called once per payload in order on a fresh stream, then
  \<^verbatim>\<open>Close\<close>, then \<open>length ps + 1\<close> calls of \<^verbatim>\<open>ReadRecord\<close> on the file the writer left,
  yield exactly the payloads, byte for byte and in the same order, and then "no frame".
  On a device without a limit every write returns true and \<^verbatim>\<open>Close\<close> reports no
  failure. On any device, when \<^verbatim>\<open>Close\<close> reported no failure, every write had returned
  true, the file holds the frames of the payloads and nothing else, the reads deliver
  the payloads and then "no frame", the input stream ends exhausted, and the heap holds
  the same arrays as before. (A write that returned true may have left its frame in
  the stream buffer; on a full device it is \<^verbatim>\<open>Close\<close> that reports the loss.)
\<close>

theorem round_trip:
  assumes "\<forall>p\<in>set ps. length p \<le> PTRDIFF_MAX \<and> length p \<le> alloc_limit h"
  shows "(\<forall>ok\<in>set (fst (write_records ps (fresh_ofstream None))). ok)
         \<and> \<not> fst (RecordWriter_Close (snd (write_records ps (fresh_ofstream None))))
         \<and> (\<not> fst (RecordWriter_Close (snd (write_records ps (fresh_ofstream r)))) \<longrightarrow>
              (\<forall>ok\<in>set (fst (write_records ps (fresh_ofstream r))). ok)
              \<and> device (snd (RecordWriter_Close (snd (write_records ps (fresh_ofstream r))))) =
                  concat (map frame ps)
              \<and> read_records (Suc (length ps))
                  (open_ifstream
                    (device (snd (RecordWriter_Close (snd (write_records ps (fresh_ofstream r)))))))
                  h =
                Inr (map Some ps @ [None], exhausted, h\<lparr>next_addr := next_addr h + length ps\<rparr>))"
proof -
  have sz: "\<forall>p\<in>set ps. length p \<le> PTRDIFF_MAX" using assms by simp
  note u = writes_and_Close_unlimited [OF sz]
  have "(\<forall>ok\<in>set (fst (write_records ps (fresh_ofstream r))). ok)
              \<and> device (snd (RecordWriter_Close (snd (write_records ps (fresh_ofstream r))))) =
                  concat (map frame ps)
              \<and> read_records (Suc (length ps))
                  (open_ifstream
                    (device (snd (RecordWriter_Close (snd (write_records ps (fresh_ofstream r)))))))
                  h =
                Inr (map Some ps @ [None], exhausted, h\<lparr>next_addr := next_addr h + length ps\<rparr>)"
    if cl: "\<not> fst (RecordWriter_Close (snd (write_records ps (fresh_ofstream r))))"
  proof -
    note w = written_after_writes_and_Close [OF cl sz]
    show ?thesis
      using w read_records_frames [OF assms] by simp
  qed
  then show ?thesis using u by blast
qed

theorem round_trip_witness:
  "fst (write_records [[65, 66, 67], [], [68, 69, 70, 71]] (fresh_ofstream None)) = [True, True, True]
   \<and> \<not> fst (RecordWriter_Close
         (snd (write_records [[65, 66, 67], [], [68, 69, 70, 71]] (fresh_ofstream None))))
   \<and> device (snd (RecordWriter_Close
         (snd (write_records [[65, 66, 67], [], [68, 69, 70, 71]] (fresh_ofstream None))))) =
        [10, 35, 215, 62, 3, 0, 0, 0, 0, 0, 0, 0, 65, 66, 67,
         10, 35, 215, 62, 0, 0, 0, 0, 0, 0, 0, 0,
         10, 35, 215, 62, 4, 0, 0, 0, 0, 0, 0, 0, 68, 69, 70, 71]
   \<and> read_records 4
        (open_ifstream (device (snd (RecordWriter_Close
           (snd (write_records [[65, 66, 67], [], [68, 69, 70, 71]] (fresh_ofstream None)))))))
        (empty_heap 100) =
      Inr ([Some [65, 66, 67], Some [], Some [68, 69, 70, 71], None], exhausted,
           (empty_heap 100)\<lparr>next_addr := 3\<rparr>)"
proof -
  have h: "\<forall>p\<in>set [[65, 66, 67], [], [68, 69, 70, 71 :: byte]].
             length p \<le> PTRDIFF_MAX \<and> length p \<le> alloc_limit (empty_heap 100)"
    by (simp add: PTRDIFF_MAX_def empty_heap_def)
  have "read_records (Suc (length [[65, 66, 67], [], [68, 69, 70, 71 :: byte]]))
          (open_ifstream (device (snd (RecordWriter_Close
             (snd (write_records [[65, 66, 67], [], [68, 69, 70, 71]] (fresh_ofstream None)))))))
          (empty_heap 100) =
        Inr (map Some [[65, 66, 67], [], [68, 69, 70, 71]] @ [None], exhausted,
             (empty_heap 100)\<lparr>next_addr := next_addr (empty_heap 100)
                + length [[65, 66, 67], [], [68, 69, 70, 71 :: byte]]\<rparr>)"
    using round_trip [OF h, of None] by blast
  then show ?thesis
    unfolding scenario_write snd_conv fst_conv scenario_close
    by (simp add: empty_heap_def four_Suc del: read_records.simps)
qed

text \<open>
  Without the condition on the reader's allocator the claim fails. One payload of one
  byte is written to a device without a limit and the stream is closed without a
  failure; the file holds the frame. A reader whose allocator has nothing left to give
  does not return the payload: \<^verbatim>\<open>new char[*len]\<close> throws \<^verbatim>\<open>std::bad_alloc\<close>, no call of
  \<^verbatim>\<open>ReadRecord\<close> returns, and neither the payload nor "no frame" is delivered.
\<close>

theorem round_trip_counterexample:
  "fst (write_records [[65]] (fresh_ofstream None)) = [True]
   \<and> \<not> fst (RecordWriter_Close (snd (write_records [[65]] (fresh_ofstream None))))
   \<and> device (snd (RecordWriter_Close (snd (write_records [[65]] (fresh_ofstream None))))) =
        [10, 35, 215, 62, 1, 0, 0, 0, 0, 0, 0, 0, 65]
   \<and> read_records 2 (open_ifstream [10, 35, 215, 62, 1, 0, 0, 0, 0, 0, 0, 0, 65]) (empty_heap 0)
        = Inl bad_alloc"
proof -
  have "ReadRecord 0 (open_ifstream (int_bytes kMagicNumber @ size_bytes 1 @ [65])) (empty_heap 0)
          = Inl bad_alloc"
    by (rule ReadRecord_alloc_fails) (simp add: empty_heap_def)
  then have "ReadRecord 0 (open_ifstream [10, 35, 215, 62, 1, 0, 0, 0, 0, 0, 0, 0, 65]) (empty_heap 0)
          = Inl bad_alloc"
    by (simp add: magic_bytes size_bytes_unfold)
  then have "read_records (Suc (Suc 0)) (open_ifstream [10, 35, 215, 62, 1, 0, 0, 0, 0, 0, 0, 0, 65])
      (empty_heap 0) = Inl bad_alloc"
    by (simp add: ReadRecord_string_def)
  moreover have "(2 :: nat) = Suc (Suc 0)" by simp
  ultimately have "read_records 2 (open_ifstream [10, 35, 215, 62, 1, 0, 0, 0, 0, 0, 0, 0, 65])
      (empty_heap 0) = Inl bad_alloc"
    by (simp only:)
  then show ?thesis
    unfolding one_record_write snd_conv fst_conv one_record_close by simp
qed

subsection \<open>Round trip of a fixed-size record\<close>

text \<open>
  Claim C2. For every value \<open>v\<close> of a plain-data type of size \<open>sizeof_T\<close> (its object
  representation, \<open>sizeof_T\<close> bytes): \<^verbatim>\<open>Write<T>\<close> on a fresh stream over a device without
  a limit succeeds and \<^verbatim>\<open>Close\<close> reports no failure; and on any device, when \<^verbatim>\<open>Close\<close>
  after the \<^verbatim>\<open>Write<T>\<close> reported no failure, the \<^verbatim>\<open>Write<T>\<close> had succeeded, and
  \<^verbatim>\<open>Read<T>\<close> of the file the writer left, into a destination of the same type, succeeds,
  leaves in the destination a byte-identical copy of \<open>v\<close> and consumes the whole file.
\<close>

theorem fixed_size_round_trip:
  assumes "length v = unat sizeof_T" and "length dest = unat sizeof_T"
    and "unat sizeof_T \<le> PTRDIFF_MAX"
  shows "fst (Write sizeof_T v (fresh_ofstream None))
         \<and> \<not> fst (RecordWriter_Close (snd (Write sizeof_T v (fresh_ofstream None))))
         \<and> (\<not> fst (RecordWriter_Close (snd (Write sizeof_T v (fresh_ofstream r)))) \<longrightarrow>
              fst (Write sizeof_T v (fresh_ofstream r))
              \<and> Read sizeof_T dest
                  (open_ifstream
                    (device (snd (RecordWriter_Close (snd (Write sizeof_T v (fresh_ofstream r)))))))
                = (True, v, open_ifstream []))"
proof (intro conjI impI)
  have len: "unat sizeof_T \<le> length v" using assms(1) by simp
  note u = WriteRecord_unlimited [of "fresh_ofstream None" sizeof_T v, OF _ _ _ len assms(3)]
  show ok: "fst (Write sizeof_T v (fresh_ofstream None))"
    using u(1) by (simp add: Write_def)
  have "\<not> ios_fail (snd (WriteRecord v sizeof_T (fresh_ofstream None)))"
    using ok by (simp add: Write_def WriteRecord_states)
  then show "\<not> fst (RecordWriter_Close (snd (Write sizeof_T v (fresh_ofstream None))))"
    unfolding Write_def
    by (rule RecordWriter_Close_unlimited) (use u(2) in \<open>simp_all add: WriteRecord_frame\<close>)
next
  assume cl: "\<not> fst (RecordWriter_Close (snd (Write sizeof_T v (fresh_ofstream r))))"
  note c = RecordWriter_Close_succeeded [OF cl]
  show ok: "fst (Write sizeof_T v (fresh_ofstream r))"
    using c(1) by (simp add: Write_def WriteRecord_states)
  then have ok': "fst (WriteRecord v sizeof_T (fresh_ofstream r))" by (simp add: Write_def)
  have w: "device (snd (RecordWriter_Close (snd (Write sizeof_T v (fresh_ofstream r))))) =
             int_bytes kMagicNumber @ size_bytes sizeof_T @ v @ []"
    using WriteRecord_success(1) [OF ok'] assms(1) c(2) by (simp add: Write_def)
  show "Read sizeof_T dest
          (open_ifstream (device (snd (RecordWriter_Close (snd (Write sizeof_T v (fresh_ofstream r)))))))
          = (True, v, open_ifstream [])"
    unfolding w Read_def
    using ReadRecordSized_whole_frame [OF assms(1,3), of dest "[]"] assms(1,2) by simp
qed

theorem fixed_size_round_trip_witness:
  "fst (Write 4 [1, 2, 3, 4] (fresh_ofstream None))
   \<and> \<not> fst (RecordWriter_Close (snd (Write 4 [1, 2, 3, 4] (fresh_ofstream None))))
   \<and> device (snd (RecordWriter_Close (snd (Write 4 [1, 2, 3, 4] (fresh_ofstream None))))) =
       [10, 35, 215, 62, 4, 0, 0, 0, 0, 0, 0, 0, 1, 2, 3, 4]
   \<and> Read 4 [9, 9, 9, 9]
       (open_ifstream (device (snd (RecordWriter_Close (snd (Write 4 [1, 2, 3, 4] (fresh_ofstream None)))))))
       = (True, [1, 2, 3, 4], open_ifstream [])"
proof -
  have a: "length [1, 2, 3, 4 :: byte] = unat (4 :: size_t)"
    and b: "length [9, 9, 9, 9 :: byte] = unat (4 :: size_t)"
    and c: "unat (4 :: size_t) \<le> PTRDIFF_MAX"
    by (simp_all add: PTRDIFF_MAX_def)
  have w: "Write 4 [1, 2, 3, 4] (fresh_ofstream None) =
      (True, (fresh_ofstream None)\<lparr>put_area := [10, 35, 215, 62, 4, 0, 0, 0, 0, 0, 0, 0, 1, 2, 3, 4]\<rparr>)"
    by (simp add: Write_def WriteRecord_buffered fresh_ofstream_def BUFSIZ_def
        ios_good_def PTRDIFF_MAX_def magic_bytes size_bytes_unfold)
  have d: "device (snd (RecordWriter_Close
      ((fresh_ofstream None)\<lparr>put_area := [10, 35, 215, 62, 4, 0, 0, 0, 0, 0, 0, 0, 1, 2, 3, 4]\<rparr>))) =
       [10, 35, 215, 62, 4, 0, 0, 0, 0, 0, 0, 0, 1, 2, 3, 4]"
    by (simp add: RecordWriter_Close_def ofstream_close_def ofstream_closing_fails_def
      flush_fails_def Let_def fresh_ofstream_def accepted_def)
  show ?thesis
    using fixed_size_round_trip [OF a b c, of None] d unfolding w snd_conv fst_conv by simp
qed

subsection \<open>The layout of a frame\<close>

text \<open>
  Claim C3. For every buffer and length \<open>len\<close>, a successful
  \<^verbatim>\<open>WriteRecord(buffer, len)\<close> appends to the stream exactly, in this order and with
  nothing between them: the four bytes of the magic value \<^verbatim>\<open>0x3ed7230a\<close>, the same in
  every frame; \<open>len\<close> in the \<^verbatim>\<open>sizeof(size_t)\<close> bytes of a \<^verbatim>\<open>size_t\<close>; the \<open>len\<close>
  bytes of the payload.
\<close>

theorem WriteRecord_frame_layout:
  assumes "fst (WriteRecord buffer len f)"
  shows "written (snd (WriteRecord buffer len f)) =
           written f @ int_bytes kMagicNumber @ size_bytes len @ take (unat len) buffer
         \<and> int_bytes kMagicNumber = [0x0a, 0x23, 0xd7, 0x3e]
         \<and> int_of_bytes [0x0a, 0x23, 0xd7, 0x3e] = (0x3ed7230a :: int32)
         \<and> length (int_bytes kMagicNumber) = sizeof_int
         \<and> length (size_bytes len) = sizeof_size_t
         \<and> size_of_bytes (size_bytes len) = len
         \<and> length (take (unat len) buffer) = unat len"
proof -
  have "int_of_bytes (int_bytes kMagicNumber) = kMagicNumber" by simp
  then have "int_of_bytes [0x0a, 0x23, 0xd7, 0x3e] = (0x3ed7230a :: int32)"
    unfolding magic_bytes by (simp add: kMagicNumber_def)
  then show ?thesis
    using WriteRecord_success(1,2) [OF assms]
    by (simp add: magic_bytes sizeof_int_def sizeof_size_t_def min_absorb2)
qed

theorem WriteRecord_frame_layout_witness:
  "fst (WriteRecord [65, 66, 67] 3 (fresh_ofstream None))
   \<and> written (snd (WriteRecord [65, 66, 67] 3 (fresh_ofstream None))) =
       [0x0a, 0x23, 0xd7, 0x3e, 3, 0, 0, 0, 0, 0, 0, 0, 65, 66, 67]"
proof -
  have ok: "fst (WriteRecord [65, 66, 67] 3 (fresh_ofstream None))"
    by (rule WriteRecord_unlimited(1)) (simp_all add: PTRDIFF_MAX_def)
  show ?thesis
    using WriteRecord_frame_layout [OF ok] ok by (simp add: size_bytes_unfold)
qed

subsection \<open>A frame of another size\<close>

text \<open>
  Claim C4. For every frame written with payload length \<open>L\<close> and every expected size
  \<open>M \<noteq> L\<close>: reading that frame through the fixed-size path (\<^verbatim>\<open>ReadRecordSized\<close>, and
  \<^verbatim>\<open>Read<T>\<close> with \<^verbatim>\<open>sizeof(T) = M\<close>) returns false although the frame starts with
  the magic value; the caller's storage is unchanged, and the payload is still in the
  stream.
\<close>

theorem size_mismatch_rejected:
  assumes "fst (WriteRecord buffer L (fresh_ofstream r))" and "M \<noteq> L"
  shows "take 4 (written (snd (WriteRecord buffer L (fresh_ofstream r)))) = int_bytes kMagicNumber
         \<and> ReadRecordSized dest M
             (open_ifstream (written (snd (WriteRecord buffer L (fresh_ofstream r))) @ rest))
             = (False, dest, open_ifstream (take (unat L) buffer @ rest))
         \<and> Read M dest
             (open_ifstream (written (snd (WriteRecord buffer L (fresh_ofstream r))) @ rest))
             = (False, dest, open_ifstream (take (unat L) buffer @ rest))"
proof -
  have w: "written (snd (WriteRecord buffer L (fresh_ofstream r))) =
             int_bytes kMagicNumber @ size_bytes L @ take (unat L) buffer"
    using WriteRecord_success(1) [OF assms(1)] by simp
  show ?thesis
    unfolding w Read_def
    using ReadRecordSized_other_size [OF assms(2), of dest "take (unat L) buffer @ rest"]
    by simp
qed

theorem size_mismatch_rejected_witness:
  "fst (WriteRecord [1, 2, 3] 3 (fresh_ofstream None))
   \<and> ReadRecordSized [9, 9, 9, 9] 4
       (open_ifstream (written (snd (WriteRecord [1, 2, 3] 3 (fresh_ofstream None))) @ []))
       = (False, [9, 9, 9, 9], open_ifstream [1, 2, 3])"
proof -
  have ok: "fst (WriteRecord [1, 2, 3] 3 (fresh_ofstream None))"
    by (rule WriteRecord_unlimited(1)) (simp_all add: PTRDIFF_MAX_def)
  have ne: "(4 :: size_t) \<noteq> 3" by simp
  show ?thesis
    using size_mismatch_rejected [OF ok ne, of "[9, 9, 9, 9]" "[]"] ok by simp
qed

subsection \<open>A stream that does not start with the magic value\<close>

text \<open>
  Claim C5. For every stream whose first four bytes are not the magic value, the first
  \<^verbatim>\<open>ReadRecord\<close> returns false with a null buffer and \<^verbatim>\<open>*len\<close> untouched; the stream
  is the one the single four-byte read of the magic value leaves behind (the content
  from the fifth byte on is still to be read), and the heap is unchanged. The string
  overload returns false and leaves the caller's string as it was.
\<close>

theorem sentinel_rejected:
  assumes "take 4 bs \<noteq> int_bytes kMagicNumber"
  shows "ReadRecord len0 (open_ifstream bs) h =
           Inr (False, None, len0, snd (istream_read (int sizeof_int) (open_ifstream bs)), h)
         \<and> pending (snd (istream_read (int sizeof_int) (open_ifstream bs))) = drop 4 bs
         \<and> ReadRecord_string data (open_ifstream bs) h =
           Inr (False, data, snd (istream_read (int sizeof_int) (open_ifstream bs)), h)"
  using ReadRecord_no_magic [OF assms]
  by (simp add: pending_after_magic_read ReadRecord_string_def)

theorem sentinel_rejected_witness:
  "take 4 [1, 2, 3, 4, 5, 6] \<noteq> int_bytes kMagicNumber
   \<and> ReadRecord 7 (open_ifstream [1, 2, 3, 4, 5, 6]) (empty_heap 100) =
       Inr (False, None, 7, open_ifstream [5, 6], empty_heap 100)"
proof -
  have ne: "take 4 [1, 2, 3, 4, 5, 6] \<noteq> int_bytes kMagicNumber"
    by (simp add: magic_bytes)
  have r: "istream_read (int sizeof_int) (open_ifstream [1, 2, 3, 4, 5, 6]) =
             ([1, 2, 3, 4], open_ifstream [5, 6])"
    using istream_read_open_exact [of "[1, 2, 3, 4]" 4 "[5, 6]"] by (simp add: sizeof_int_def)
  show ?thesis
    using sentinel_rejected [OF ne, of 7 "empty_heap 100"] ne by (simp add: r)
qed

subsection \<open>A truncated payload\<close>

text \<open>
  Claim C6, amended. For every stream that holds the magic value, a length field
  declaring \<open>len\<close> bytes and fewer than \<open>len\<close> payload bytes, where an array of \<open>len\<close>
  bytes is one the allocator supplies (and so is no larger than \<^verbatim>\<open>PTRDIFF_MAX\<close>):
  \<^verbatim>\<open>ReadRecord\<close> returns false with a null buffer, and the array it allocated is
  deleted: the heap holds the same arrays as before the call.
\<close>

theorem truncated_payload_rejected:
  assumes "length p < unat len" and "unat len \<le> alloc_limit h" and "unat len \<le> PTRDIFF_MAX"
  shows "ReadRecord len0 (open_ifstream (int_bytes kMagicNumber @ size_bytes len @ p)) h =
           Inr (False, None, len, exhausted, h\<lparr>next_addr := Suc (next_addr h)\<rparr>)
         \<and> blocks (h\<lparr>next_addr := Suc (next_addr h)\<rparr>) = blocks h
         \<and> ReadRecord_string data (open_ifstream (int_bytes kMagicNumber @ size_bytes len @ p)) h =
           Inr (False, data, exhausted, h\<lparr>next_addr := Suc (next_addr h)\<rparr>)"
  using ReadRecord_header_then_short [OF assms(1), of _ h] assms(2,3)
  by (simp add: ReadRecord_string_def)

theorem truncated_payload_rejected_witness:
  "ReadRecord 0 (open_ifstream [10, 35, 215, 62, 5, 0, 0, 0, 0, 0, 0, 0, 1, 2, 3]) (empty_heap 100) =
     Inr (False, None, 5, exhausted, (empty_heap 100)\<lparr>next_addr := 1\<rparr>)
   \<and> blocks ((empty_heap 100)\<lparr>next_addr := 1\<rparr>) = []"
proof -
  have a: "length [1, 2, 3 :: byte] < unat (5 :: size_t)"
    and b: "unat (5 :: size_t) \<le> alloc_limit (empty_heap 100)"
    and c: "unat (5 :: size_t) \<le> PTRDIFF_MAX"
    by (simp_all add: empty_heap_def PTRDIFF_MAX_def)
  show ?thesis
    using truncated_payload_rejected [OF a b c, of 0]
    by (simp add: magic_bytes size_bytes_unfold empty_heap_def)
qed

text \<open>
  Without the condition on the allocator the claim fails. The stream below holds the
  magic value and the length \<^verbatim>\<open>0xFFFFFFFFFFFFFFFF\<close> and no payload byte. No
  allocator supplies an array of that size, whatever its limit: \<^verbatim>\<open>new char[*len]\<close>
  throws \<^verbatim>\<open>std::bad_alloc\<close>, and \<^verbatim>\<open>ReadRecord\<close> returns nothing.
\<close>

theorem truncated_payload_counterexample:
  "take 4 [10, 35, 215, 62, 255, 255, 255, 255, 255, 255, 255, 255 :: byte] = int_bytes kMagicNumber
   \<and> take 8 (drop 4 [10, 35, 215, 62, 255, 255, 255, 255, 255, 255, 255, 255 :: byte])
        = size_bytes 0xFFFFFFFFFFFFFFFF
   \<and> length (drop 12 [10, 35, 215, 62, 255, 255, 255, 255, 255, 255, 255, 255 :: byte])
        < unat (0xFFFFFFFFFFFFFFFF :: size_t)
   \<and> ReadRecord 0 (open_ifstream [10, 35, 215, 62, 255, 255, 255, 255, 255, 255, 255, 255])
        (empty_heap (2 ^ 64)) = Inl bad_alloc"
proof -
  have s: "size_bytes 0xFFFFFFFFFFFFFFFF = [255, 255, 255, 255, 255, 255, 255, 255]"
    by (simp add: size_bytes_unfold)
  have l: "length ([] :: byte list) < unat (0xFFFFFFFFFFFFFFFF :: size_t)" by simp
  have "ReadRecord 0 (open_ifstream (int_bytes kMagicNumber @ size_bytes 0xFFFFFFFFFFFFFFFF @ []))
          (empty_heap (2 ^ 64)) = Inl bad_alloc"
    unfolding ReadRecord_header_then_short [OF l]
    by (simp add: empty_heap_def PTRDIFF_MAX_def)
  then show ?thesis by (simp add: s magic_bytes)
qed

subsection \<open>What a failed write reports and leaves behind\<close>

text \<open>
  Claim C7. \<^verbatim>\<open>WriteRecord\<close> returns false if and only if one of its three writes reports
  a failure: the write of the magic value, of the length or of the payload, each on
  the stream the writes before it left. A write reports a failure when its sentry
  refuses the stream (it had failed before) or when the stream buffer puts fewer
  characters than asked for, which needs a device that refuses them; a write whose
  characters stay in the stream buffer reports none. Nothing is rolled back: what the
  file held before the call is a prefix of what it holds after it. When a call on a
  good, open stream with a valid buffer fails, the device was full after \<open>r\<close> more bytes,
  and the file has grown by exactly the first \<open>r\<close> bytes of what was waiting in the
  stream buffer followed by the frame, fewer than all of them: a truncated trailing
  frame.
\<close>

theorem WriteRecord_failure_report:
  "(\<not> fst (WriteRecord buffer len f)) =
      (write_reports_failure (int_bytes kMagicNumber) (int sizeof_int) f
       \<or> write_reports_failure (size_bytes len) (int sizeof_size_t)
            (ostream_write (int_bytes kMagicNumber) (int sizeof_int) f)
       \<or> write_reports_failure buffer (streamsize_of len)
            (ostream_write (size_bytes len) (int sizeof_size_t)
              (ostream_write (int_bytes kMagicNumber) (int sizeof_int) f)))
   \<and> prefix (device f) (device (snd (WriteRecord buffer len f)))
   \<and> (ios_good f \<and> is_open f \<and> unat len \<le> length buffer \<and> unat len \<le> PTRDIFF_MAX
        \<and> \<not> fst (WriteRecord buffer len f) \<longrightarrow>
        (\<exists>r. room f = Some r
           \<and> r < length (put_area f @ int_bytes kMagicNumber @ size_bytes len @ take (unat len) buffer)
           \<and> device (snd (WriteRecord buffer len f)) =
               device f @ take r (put_area f @ int_bytes kMagicNumber @ size_bytes len
                                  @ take (unat len) buffer)))"
proof (intro conjI impI)
  define f1 where "f1 = ostream_write (int_bytes kMagicNumber) (int sizeof_int) f"
  define f2 where "f2 = ostream_write (size_bytes len) (int sizeof_size_t) f1"
  define f3 where "f3 = ostream_write buffer (streamsize_of len) f2"
  have W: "WriteRecord buffer len f = (\<not> ios_fail f3, f3)"
    by (simp add: WriteRecord_states f1_def f2_def f3_def)
  have r1: "write_reports_failure (int_bytes kMagicNumber) (int sizeof_int) f = ios_fail f1"
    by (simp add: f1_def fail_ostream_write)
  have r2: "write_reports_failure (size_bytes len) (int sizeof_size_t) f1 = ios_fail f2"
    by (simp add: f2_def fail_ostream_write)
  have r3: "write_reports_failure buffer (streamsize_of len) f2 = ios_fail f3"
    by (simp add: f3_def fail_ostream_write)
  have m2: "ios_fail f1 \<Longrightarrow> ios_fail f2" unfolding f2_def by (rule fail_ostream_write_mono)
  have m3: "ios_fail f2 \<Longrightarrow> ios_fail f3" unfolding f3_def by (rule fail_ostream_write_mono)
  have "ios_fail f3 = (ios_fail f1 \<or> ios_fail f2 \<or> ios_fail f3)" using m2 m3 by blast
  then have "(\<not> fst (WriteRecord buffer len f)) =
      (write_reports_failure (int_bytes kMagicNumber) (int sizeof_int) f
       \<or> write_reports_failure (size_bytes len) (int sizeof_size_t) f1
       \<or> write_reports_failure buffer (streamsize_of len) f2)"
    unfolding W r1 r2 r3 by simp
  then show "(\<not> fst (WriteRecord buffer len f)) =
      (write_reports_failure (int_bytes kMagicNumber) (int sizeof_int) f
       \<or> write_reports_failure (size_bytes len) (int sizeof_size_t)
            (ostream_write (int_bytes kMagicNumber) (int sizeof_int) f)
       \<or> write_reports_failure buffer (streamsize_of len)
            (ostream_write (size_bytes len) (int sizeof_size_t)
              (ostream_write (int_bytes kMagicNumber) (int sizeof_int) f)))"
    by (simp only: f1_def f2_def)
  show "prefix (device f) (device (snd (WriteRecord buffer len f)))"
    by (rule prefix_device_WriteRecord)
next
  define F where "F = int_bytes kMagicNumber @ size_bytes len @ take (unat len) buffer"
  assume a: "ios_good f \<and> is_open f \<and> unat len \<le> length buffer \<and> unat len \<le> PTRDIFF_MAX
        \<and> \<not> fst (WriteRecord buffer len f)"
  then obtain c where c: "capacity f = Some c" "c < length (written f @ F)"
      "device (snd (WriteRecord buffer len f)) = take c (written f @ F)"
    using WriteRecord_failure_truncates [of f len buffer] unfolding F_def by blast
  from c(1) obtain r where r: "room f = Some r" "c = length (device f) + r"
    by (auto simp: capacity_def)
  have "r < length (put_area f @ F)" using c(2) r(2) by (simp add: written_def)
  moreover have "device (snd (WriteRecord buffer len f)) = device f @ take r (put_area f @ F)"
    using c(3) r(2) by (simp add: written_def)
  ultimately show "\<exists>r. room f = Some r
           \<and> r < length (put_area f @ int_bytes kMagicNumber @ size_bytes len @ take (unat len) buffer)
           \<and> device (snd (WriteRecord buffer len f)) =
               device f @ take r (put_area f @ int_bytes kMagicNumber @ size_bytes len
                                  @ take (unat len) buffer)"
    using r(1) unfolding F_def by blast
qed

theorem WriteRecord_failure_report_witness:
  "\<not> fst (WriteRecord (replicate 1024 65) 1024 (fresh_ofstream (Some 100)))
   \<and> device (snd (WriteRecord (replicate 1024 65) 1024 (fresh_ofstream (Some 100)))) =
       [10, 35, 215, 62, 0, 4, 0, 0, 0, 0, 0, 0] @ replicate 88 65
   \<and> fst (WriteRecord [65, 66, 67] 3 (fresh_ofstream (Some 14)))
   \<and> device (snd (WriteRecord [65, 66, 67] 3 (fresh_ofstream (Some 14)))) = []
   \<and> fst (RecordWriter_Close (snd (WriteRecord [65, 66, 67] 3 (fresh_ofstream (Some 14)))))
   \<and> device (snd (RecordWriter_Close (snd (WriteRecord [65, 66, 67] 3 (fresh_ofstream (Some 14)))))) =
       [10, 35, 215, 62, 3, 0, 0, 0, 0, 0, 0, 0, 65, 66]"
proof -
  have pre: "ios_good (fresh_ofstream (Some 100)) \<and> is_open (fresh_ofstream (Some 100))
      \<and> unat (1024 :: size_t) \<le> length (replicate 1024 (65 :: byte))
      \<and> unat (1024 :: size_t) \<le> PTRDIFF_MAX
      \<and> \<not> fst (WriteRecord (replicate 1024 65) 1024 (fresh_ofstream (Some 100)))"
    by (simp add: large_record_on_small_device PTRDIFF_MAX_def)
  from WriteRecord_failure_report [of "replicate 1024 65" 1024 "fresh_ofstream (Some 100)"] pre
  have "\<exists>r. room (fresh_ofstream (Some 100)) = Some r
      \<and> device (snd (WriteRecord (replicate 1024 65) 1024 (fresh_ofstream (Some 100)))) =
          device (fresh_ofstream (Some 100)) @
          take r (put_area (fresh_ofstream (Some 100)) @ int_bytes kMagicNumber @ size_bytes 1024
                  @ take (unat (1024 :: size_t)) (replicate 1024 65))"
    by blast
  then have "device (snd (WriteRecord (replicate 1024 65) 1024 (fresh_ofstream (Some 100)))) =
      take 100 (int_bytes kMagicNumber @ size_bytes 1024 @ replicate 1024 65)"
    by simp
  then have d: "device (snd (WriteRecord (replicate 1024 65) 1024 (fresh_ofstream (Some 100)))) =
       [10, 35, 215, 62, 0, 4, 0, 0, 0, 0, 0, 0] @ replicate 88 65"
    by (simp add: magic_bytes size_bytes_unfold)
  have cl: "RecordWriter_Close ((fresh_ofstream (Some 14))\<lparr>put_area :=
        [10, 35, 215, 62, 3, 0, 0, 0, 0, 0, 0, 0, 65, 66, 67]\<rparr>) =
      (True, (fresh_ofstream (Some 14))\<lparr>is_open := False,
          device := [10, 35, 215, 62, 3, 0, 0, 0, 0, 0, 0, 0, 65, 66], room := Some 0,
          failbit := True\<rparr>)"
    by (simp add: RecordWriter_Close_def ofstream_close_def ofstream_closing_fails_def
      flush_fails_def Let_def fresh_ofstream_def ios_fail_def accepted_def)
  show ?thesis
    using pre d unfolding small_record_on_small_device snd_conv fst_conv cl by simp
qed

subsection \<open>No output on failure\<close>

text \<open>
  Claim C8. Whenever \<^verbatim>\<open>ReadRecord\<close> returns false it produces no output: on the raw
  path the buffer pointer is null exactly when the call returns false (so a payload is
  handed over only by a call that returns true), and on the string path a call that
  returns false leaves the caller's string unchanged. This holds for every state of
  the stream and of the heap.
\<close>

theorem no_output_on_failure:
  "(ReadRecord len0 f h = Inr (ok, buffer, len, f', h') \<longrightarrow> (buffer = None) = (\<not> ok))
   \<and> (ReadRecord_string data f h = Inr (ok2, data2, f2, h2) \<longrightarrow> \<not> ok2 \<longrightarrow> data2 = data)"
  by (auto simp: ReadRecord_string_def ReadRecord_def Let_def
      split: prod.splits sum.splits if_splits)

theorem no_output_on_failure_witness:
  "ReadRecord 0 (open_ifstream []) (empty_heap 100) = Inr (False, None, 0, exhausted, empty_heap 100)
   \<and> ReadRecord_string [7] (open_ifstream []) (empty_heap 100) =
       Inr (False, [7], exhausted, empty_heap 100)
   \<and> ReadRecord 0 (open_ifstream [10, 35, 215, 62, 1, 0, 0, 0, 0, 0, 0, 0, 65]) (empty_heap 100) =
       Inr (True, Some 0, 1, open_ifstream [],
            (empty_heap 100)\<lparr>blocks := [(0, [65])], next_addr := 1\<rparr>)"
proof -
  have e: "ReadRecord_string [7] (open_ifstream []) (empty_heap 100) =
       Inr (False, [7], exhausted, empty_heap 100)"
    by (rule ReadRecord_string_empty)
  have w: "ReadRecord 0 (open_ifstream (int_bytes kMagicNumber @ size_bytes 1 @ [65] @ [])) (empty_heap 100) =
       Inr (True, Some 0, 1, open_ifstream [],
            (empty_heap 100)\<lparr>blocks := [(0, [65])], next_addr := 1\<rparr>)"
    using ReadRecord_whole_frame [of "[65]" 1 "empty_heap 100" 0 "[]"]
    by (simp add: empty_heap_def PTRDIFF_MAX_def)
  show ?thesis
    using no_output_on_failure [of 0 "open_ifstream []" "empty_heap 100" False None 0 exhausted
        "empty_heap 100" "[7]" False "[7]" exhausted "empty_heap 100"] e w
    by (simp add: ReadRecord_empty magic_bytes size_bytes_unfold)
qed

subsection \<open>The empty stream\<close>

text \<open>
  Claim C9. On the empty stream the first \<^verbatim>\<open>ReadRecord\<close> returns false at once: the
  buffer is null, \<^verbatim>\<open>*len\<close> and the heap are untouched (the string overload leaves the
  string untouched), and the stream differs from the one before the call only in
  \<^verbatim>\<open>eofbit\<close> and \<^verbatim>\<open>failbit\<close>, the failure signal.
\<close>

theorem empty_stream_no_frame:
  "ReadRecord len0 (open_ifstream []) h = Inr (False, None, len0, exhausted, h)
   \<and> ReadRecord_string data (open_ifstream []) h = Inr (False, data, exhausted, h)
   \<and> pending exhausted = [] \<and> is_open exhausted \<and> \<not> badbit exhausted"
proof -
  have "pending exhausted = [] \<and> is_open exhausted \<and> \<not> badbit exhausted"
    by (simp add: exhausted_def open_ifstream_def)
  then show ?thesis
    by (simp add: ReadRecord_empty ReadRecord_string_empty)
qed

subsection \<open>The return value of Close\<close>

text \<open>
  Claim C10, amended. \<^verbatim>\<open>RecordWriter::Close\<close> and \<^verbatim>\<open>RecordReader::Close\<close> return
  \<^verbatim>\<open>fail()\<close> of the stream after \<^verbatim>\<open>close()\<close>: true when closing the file failed or when
  the stream had already failed before the call, false otherwise. On a stream that had
  not failed they return true exactly when closing failed. For the writer, closing
  includes writing out what the stream buffer still holds, and fails when the device
  does not take it. The polarity is the opposite of \<^verbatim>\<open>WriteRecord\<close>, \<^verbatim>\<open>ReadRecord\<close> and
  \<^verbatim>\<open>ReadRecordSized\<close>, which return true only when the stream has not failed.
\<close>

theorem Close_reports_fail_state:
  "fst (RecordWriter_Close f) = (ios_fail f \<or> ofstream_closing_fails f)
   \<and> fst (RecordReader_Close g) = (ios_fail g \<or> closing_fails g)
   \<and> (\<not> ios_fail f \<longrightarrow> fst (RecordWriter_Close f) = ofstream_closing_fails f)
   \<and> (\<not> ios_fail g \<longrightarrow> fst (RecordReader_Close g) = closing_fails g)
   \<and> fst (WriteRecord buffer len f) = (\<not> ios_fail (snd (WriteRecord buffer len f)))
   \<and> (fst (ReadRecordSized dest n g) \<longrightarrow> \<not> ios_fail (snd (snd (ReadRecordSized dest n g))))
   \<and> (ReadRecord len0 g h = Inr (True, p, len1, g1, h1) \<longrightarrow> \<not> ios_fail g1)"
proof -
  have c: "fst (RecordWriter_Close f) = (ios_fail f \<or> ofstream_closing_fails f)"
    "fst (RecordReader_Close g) = (ios_fail g \<or> closing_fails g)"
    by (auto simp: RecordWriter_Close_def RecordReader_Close_def ios_close_def ofstream_close_def
        ofstream_closing_fails_def Let_def ios_fail_def)
  have w: "fst (WriteRecord buffer len f) = (\<not> ios_fail (snd (WriteRecord buffer len f)))"
    by (simp add: WriteRecord_def Let_def)
  have s: "fst (ReadRecordSized dest n g) \<longrightarrow> \<not> ios_fail (snd (snd (ReadRecordSized dest n g)))"
    by (simp add: ReadRecordSized_def Let_def split: prod.splits)
  have r: "ReadRecord len0 g h = Inr (True, p, len1, g1, h1) \<longrightarrow> \<not> ios_fail g1"
    by (auto simp: ReadRecord_def Let_def split: prod.splits sum.splits if_splits)
  show ?thesis using c w s r by simp
qed

theorem Close_reports_fail_state_witness:
  "\<not> fst (RecordWriter_Close (fresh_ofstream None))
   \<and> fst (RecordWriter_Close ((fresh_ofstream None)\<lparr>close_ok := False\<rparr>))
   \<and> fst (RecordWriter_Close ((fresh_ofstream (Some 14))\<lparr>put_area :=
        [10, 35, 215, 62, 3, 0, 0, 0, 0, 0, 0, 0, 65, 66, 67]\<rparr>))
   \<and> \<not> fst (RecordReader_Close (open_ifstream []))
   \<and> fst (RecordReader_Close exhausted)
   \<and> fst (WriteRecord [65] 1 (fresh_ofstream None))
   \<and> fst (ReadRecordSized [0] 1 (open_ifstream [10, 35, 215, 62, 1, 0, 0, 0, 0, 0, 0, 0, 65]))
   \<and> \<not> ios_fail (snd (snd (ReadRecordSized [0] 1
          (open_ifstream [10, 35, 215, 62, 1, 0, 0, 0, 0, 0, 0, 0, 65]))))"
proof -
  have a: "\<not> ios_fail (fresh_ofstream None)" "\<not> ofstream_closing_fails (fresh_ofstream None)"
    "ofstream_closing_fails ((fresh_ofstream None)\<lparr>close_ok := False\<rparr>)"
    "ofstream_closing_fails ((fresh_ofstream (Some 14))\<lparr>put_area :=
        [10, 35, 215, 62, 3, 0, 0, 0, 0, 0, 0, 0, 65, 66, 67]\<rparr>)"
    "\<not> closing_fails (open_ifstream [])" "\<not> ios_fail (open_ifstream [])" "ios_fail exhausted"
    by (simp_all add: fresh_ofstream_def open_ifstream_def ios_fail_def closing_fails_def
        ofstream_closing_fails_def flush_fails_def accepted_def exhausted_def)
  have w: "fst (WriteRecord [65] 1 (fresh_ofstream None))"
    by (rule WriteRecord_unlimited(1)) (simp_all add: PTRDIFF_MAX_def)
  have s: "ReadRecordSized [0] 1 (open_ifstream (int_bytes kMagicNumber @ size_bytes 1 @ [65] @ []))
      = (True, [65], open_ifstream [])"
    using ReadRecordSized_whole_frame [of "[65]" 1 "[0]" "[]"] by (simp add: PTRDIFF_MAX_def)
  then have s': "fst (ReadRecordSized [0] 1 (open_ifstream [10, 35, 215, 62, 1, 0, 0, 0, 0, 0, 0, 0, 65]))"
    by (simp add: magic_bytes size_bytes_unfold)
  note t1 = Close_reports_fail_state [of "fresh_ofstream None" "open_ifstream []"
      "[65]" 1 "[0]" 1 0 "empty_heap 0" None 0 exhausted "empty_heap 0"]
  note t2 = Close_reports_fail_state [of "(fresh_ofstream None)\<lparr>close_ok := False\<rparr>" exhausted
      "[65]" 1 "[0]" 1 0 "empty_heap 0" None 0 exhausted "empty_heap 0"]
  note t3 = Close_reports_fail_state [of "fresh_ofstream None"
      "open_ifstream [10, 35, 215, 62, 1, 0, 0, 0, 0, 0, 0, 0, 65]"
      "[65]" 1 "[0]" 1 0 "empty_heap 0" None 0 exhausted "empty_heap 0"]
  note t4 = Close_reports_fail_state [of "(fresh_ofstream (Some 14))\<lparr>put_area :=
        [10, 35, 215, 62, 3, 0, 0, 0, 0, 0, 0, 0, 65, 66, 67]\<rparr>" exhausted
      "[65]" 1 "[0]" 1 0 "empty_heap 0" None 0 exhausted "empty_heap 0"]
  show ?thesis using t1 t2 t3 t4 a w s' by simp
qed

text \<open>
  As the claim states it, \<^verbatim>\<open>Close\<close> returns true exactly when closing failed. That
  fails for a reader that has read to the end of its stream: the last \<^verbatim>\<open>ReadRecord\<close>
  leaves \<^verbatim>\<open>failbit\<close> set, \<^verbatim>\<open>close()\<close> does not clear it, and \<^verbatim>\<open>Close\<close> returns true
  although the file was closed without an error.
\<close>

theorem Close_counterexample:
  "ReadRecord 0 (open_ifstream []) (empty_heap 0) = Inr (False, None, 0, exhausted, empty_heap 0)
   \<and> \<not> closing_fails exhausted
   \<and> fst (RecordReader_Close exhausted)"
proof -
  have "\<not> closing_fails exhausted"
    by (simp add: closing_fails_def exhausted_def open_ifstream_def)
  moreover have "fst (RecordReader_Close exhausted)"
    by (simp add: RecordReader_Close_def ios_close_def closing_fails_def
        exhausted_def open_ifstream_def ios_fail_def)
  ultimately show ?thesis by (simp add: ReadRecord_empty)
qed

end
